theory Spec2Isabelle
  imports Complex_Main "HOL-Library.AList"
begin

section \<open>Data model\<close>

text \<open>
  The module \<^verbatim>\<open>pyaldata/data_cleaning.py\<close> holds four column-wise transforms of a
  pandas DataFrame in which every row is a trial. A cell is a scalar number, a string, a
  numeric numpy array or a Python list of numbers.

  Numbers: a Python \<^verbatim>\<open>int\<close> is unbounded and is an \<open>int\<close>; a float is the rational
  it denotes, or one of NaN, +inf, -inf (rounding of float arithmetic is not part of this
  model). A scalar cell is a Python number, which is what pandas hands out of a column of
  a numeric dtype; numpy scalars kept as objects are not part of the model. The elements
  of a numpy array have the array's dtype: an integer dtype has a width, and arithmetic in
  it wraps around. Arrays of booleans, strings or objects are not part of the model.
\<close>

datatype num = IntV int | FloatV rat | NaN | PosInf | NegInf

text \<open>
  The dtype of a numeric array: signed and unsigned integers of a width in bits
  (\<^verbatim>\<open>int32\<close> is \<open>SInt 32\<close>, \<^verbatim>\<open>uint8\<close> is \<open>UInt 8\<close>), and floating point.
\<close>

datatype dtype = SInt nat | UInt nat | Floating

fun dtype_min :: "dtype \<Rightarrow> int" where
  "dtype_min (SInt w) = - (2 ^ (w - 1))"
| "dtype_min (UInt w) = 0"
| "dtype_min Floating = 0"

fun dtype_max :: "dtype \<Rightarrow> int" where
  "dtype_max (SInt w) = 2 ^ (w - 1) - 1"
| "dtype_max (UInt w) = 2 ^ w - 1"
| "dtype_max Floating = 0"

text \<open>The value an integer dtype keeps of an integer: the low bits, read in the dtype.\<close>

fun wrap :: "dtype \<Rightarrow> int \<Rightarrow> int" where
  "wrap (SInt w) x = (x + 2 ^ (w - 1)) mod 2 ^ w - 2 ^ (w - 1)"
| "wrap (UInt w) x = x mod 2 ^ w"
| "wrap Floating x = x"

text \<open>
  An element an array of the dtype can hold: an integer of the range in an integer dtype,
  a float in the floating dtype.
\<close>

fun is_int_dtype :: "dtype \<Rightarrow> bool" where
  "is_int_dtype (SInt w) = (0 < w)"
| "is_int_dtype (UInt w) = (0 < w)"
| "is_int_dtype Floating = False"

fun conforms :: "dtype \<Rightarrow> num \<Rightarrow> bool" where
  "conforms dt (IntV i) = (is_int_dtype dt \<and> dtype_min dt \<le> i \<and> i \<le> dtype_max dt)"
| "conforms dt x = (dt = Floating)"

text \<open>A numpy array: its dtype, its shape and its elements in row-major order.\<close>

datatype ndarray = NDArray (dtype_of: dtype) (shape: "nat list") (elems: "num list")

text \<open>A cell: a Python number, a string, a numpy array, or a Python list of numbers.\<close>

datatype cell = Num num | Str string | Arr ndarray | Seq "num list"

text \<open>The Python exceptions the transforms can meet.\<close>

datatype error = TypeError | AttributeError | ValueError | IndexError | KeyError | OverflowError

text \<open>
  A column (a pandas Series): whether its dtype is \<^verbatim>\<open>object\<close> (otherwise it is a numeric
  dtype), and its cells, one per row.
\<close>

type_synonym column = "bool \<times> cell list"

text \<open>A DataFrame: the row labels, and the named columns in their order.\<close>

record table =
  index :: "int list"
  columns :: "(string \<times> column) list"

text \<open>
  What pandas and numpy can hold: column names are distinct, every column has one cell per
  row, a column of a numeric dtype holds numbers only, and an array has as many elements
  as its shape says, each of its dtype.
\<close>

definition wf_ndarray :: "ndarray \<Rightarrow> bool" where
  "wf_ndarray a \<longleftrightarrow>
     length (elems a) = prod_list (shape a) \<and> list_all (conforms (dtype_of a)) (elems a)"

fun wf_cell :: "cell \<Rightarrow> bool" where
  "wf_cell (Arr a) = wf_ndarray a"
| "wf_cell _ = True"

fun is_num :: "cell \<Rightarrow> bool" where
  "is_num (Num x) = True"
| "is_num _ = False"

definition valid_table :: "table \<Rightarrow> bool" where
  "valid_table df \<longleftrightarrow>
     distinct (map fst (columns df)) \<and>
     (\<forall>(n, obj, cs) \<in> set (columns df).
        length cs = length (index df) \<and> list_all wf_cell cs \<and> (\<not> obj \<longrightarrow> list_all is_num cs))"

section \<open>Python and numpy operations the transforms call\<close>

subsection \<open>Strings\<close>

definition startswith :: "string \<Rightarrow> string \<Rightarrow> bool" where
  "startswith s p \<longleftrightarrow> take (length p) s = p"

definition endswith :: "string \<Rightarrow> string \<Rightarrow> bool" where
  "endswith s p \<longleftrightarrow> length p \<le> length s \<and> drop (length s - length p) s = p"

text \<open>\<^verbatim>\<open>sub in s\<close> on strings.\<close>

fun contains :: "string \<Rightarrow> string \<Rightarrow> bool" where
  "contains sub [] = (sub = [])"
| "contains sub (c # cs) = (startswith (c # cs) sub \<or> contains sub cs)"

text \<open>\<^verbatim>\<open>str.lower\<close>, on ASCII names.\<close>

definition lower_char :: "char \<Rightarrow> char" where
  "lower_char c =
    (if c = CHR ''A'' then CHR ''a'' else if c = CHR ''B'' then CHR ''b''
     else if c = CHR ''C'' then CHR ''c'' else if c = CHR ''D'' then CHR ''d''
     else if c = CHR ''E'' then CHR ''e'' else if c = CHR ''F'' then CHR ''f''
     else if c = CHR ''G'' then CHR ''g'' else if c = CHR ''H'' then CHR ''h''
     else if c = CHR ''I'' then CHR ''i'' else if c = CHR ''J'' then CHR ''j''
     else if c = CHR ''K'' then CHR ''k'' else if c = CHR ''L'' then CHR ''l''
     else if c = CHR ''M'' then CHR ''m'' else if c = CHR ''N'' then CHR ''n''
     else if c = CHR ''O'' then CHR ''o'' else if c = CHR ''P'' then CHR ''p''
     else if c = CHR ''Q'' then CHR ''q'' else if c = CHR ''R'' then CHR ''r''
     else if c = CHR ''S'' then CHR ''s'' else if c = CHR ''T'' then CHR ''t''
     else if c = CHR ''U'' then CHR ''u'' else if c = CHR ''V'' then CHR ''v''
     else if c = CHR ''W'' then CHR ''w'' else if c = CHR ''X'' then CHR ''x''
     else if c = CHR ''Y'' then CHR ''y'' else if c = CHR ''Z'' then CHR ''z''
     else c)"

definition lower :: "string \<Rightarrow> string" where
  "lower s = map lower_char s"

subsection \<open>Type tests\<close>

fun is_ndarray :: "cell \<Rightarrow> bool" where
  "is_ndarray (Arr a) = True"
| "is_ndarray _ = False"

fun is_str :: "cell \<Rightarrow> bool" where
  "is_str (Str s) = True"
| "is_str _ = False"

subsection \<open>Arrays\<close>

definition ndim :: "ndarray \<Rightarrow> nat" where
  "ndim a = length (shape a)"

definition size_nd :: "ndarray \<Rightarrow> nat" where
  "size_nd a = prod_list (shape a)"

text \<open>\<^verbatim>\<open>arr.reshape(1, -1)\<close>: one row, the other axis takes every element.\<close>

definition reshape_row :: "ndarray \<Rightarrow> ndarray" where
  "reshape_row a = NDArray (dtype_of a) [1, size_nd a] (elems a)"

text \<open>\<^verbatim>\<open>arr.item()\<close>: the sole element; an array of another size raises.\<close>

definition item :: "ndarray \<Rightarrow> error + cell" where
  "item a = (case elems a of [x] \<Rightarrow> Inr (Num x) | _ \<Rightarrow> Inl ValueError)"

text \<open>\<^verbatim>\<open>x - 1\<close> on a Python number; NaN and the infinities absorb it.\<close>

fun minus_one :: "num \<Rightarrow> num" where
  "minus_one (IntV i) = IntV (i - 1)"
| "minus_one (FloatV r) = FloatV (r - 1)"
| "minus_one NaN = NaN"
| "minus_one PosInf = PosInf"
| "minus_one NegInf = NegInf"

text \<open>
  \<^verbatim>\<open>x - 1\<close> on an element of an array: the result has the array's dtype, so an integer
  wraps around in it.
\<close>

definition sub_elem :: "dtype \<Rightarrow> num \<Rightarrow> num" where
  "sub_elem dt x = (case x of IntV i \<Rightarrow> IntV (wrap dt (i - 1)) | _ \<Rightarrow> minus_one x)"

text \<open>
  \<^verbatim>\<open>idx - 1\<close> on a cell: numpy subtracts elementwise from an array and keeps its dtype
  and shape, except that a 0-dimensional array gives a scalar (computed in the dtype of
  the array, as numpy 2 does); a string and a list raise TypeError.
\<close>

fun sub1 :: "cell \<Rightarrow> error + cell" where
  "sub1 (Num x) = Inr (Num (minus_one x))"
| "sub1 (Str s) = Inl TypeError"
| "sub1 (Seq xs) = Inl TypeError"
| "sub1 (Arr a) =
     Inr (case (shape a, elems a) of
            ([], [x]) \<Rightarrow> Num (sub_elem (dtype_of a) x)
          | _ \<Rightarrow> Arr (NDArray (dtype_of a) (shape a) (map (sub_elem (dtype_of a)) (elems a))))"

subsection \<open>Control: sequencing, comprehensions, loops\<close>

text \<open>An exception ends the computation; otherwise the value is handed on.\<close>

definition and_then :: "error + 'a \<Rightarrow> ('a \<Rightarrow> error + 'b) \<Rightarrow> error + 'b" where
  "and_then r f = (case r of Inl e \<Rightarrow> Inl e | Inr x \<Rightarrow> f x)"

text \<open>\<^verbatim>\<open>[f(x) for x in xs]\<close>, left to right; the first exception ends it.\<close>

fun list_comp :: "('a \<Rightarrow> error + 'b) \<Rightarrow> 'a list \<Rightarrow> error + 'b list" where
  "list_comp f [] = Inr []"
| "list_comp f (x # xs) =
     and_then (f x) (\<lambda>y. and_then (list_comp f xs) (\<lambda>ys. Inr (y # ys)))"

subsection \<open>DataFrame access\<close>

text \<open>\<^verbatim>\<open>df[c]\<close>.\<close>

definition getitem :: "table \<Rightarrow> string \<Rightarrow> error + column" where
  "getitem df c = (case map_of (columns df) c of None \<Rightarrow> Inl KeyError | Some col \<Rightarrow> Inr col)"

text \<open>
  The dtype pandas gives to assigned values: a numeric one when all of them are numbers
  (also when there are none), \<^verbatim>\<open>object\<close> otherwise. Python integers beyond 64 bits,
  which pandas keeps as objects, are not told apart here.
\<close>

definition infer_object :: "cell list \<Rightarrow> bool" where
  "infer_object vs \<longleftrightarrow> \<not> list_all is_num vs"

text \<open>
  \<^verbatim>\<open>df[c] = values\<close>: pandas refuses values whose length is not the row count, replaces
  the column in its place, and appends a column of a new name.
\<close>

definition setitem :: "table \<Rightarrow> string \<Rightarrow> cell list \<Rightarrow> error + table" where
  "setitem df c vs =
     (if length vs = length (index df)
      then Inr (df\<lparr>columns := AList.update c (infer_object vs, vs) (columns df)\<rparr>)
      else Inl ValueError)"

text \<open>
  \<^verbatim>\<open>for c in names: body\<close>, the table being the state the body assigns into. When the
  body raises, the loop ends with the exception and the table as it stood.
\<close>

fun for_each ::
  "(table \<Rightarrow> string \<Rightarrow> error + table) \<Rightarrow> string list \<Rightarrow> table \<Rightarrow> (error \<times> table) + table"
where
  "for_each body [] df = Inr df"
| "for_each body (c # cs) df =
     (case body df c of Inl e \<Rightarrow> Inl (e, df) | Inr df' \<Rightarrow> for_each body cs df')"

section \<open>The transforms\<close>

subsection \<open>\<^verbatim>\<open>backshift_idx_fields\<close>\<close>

definition idx_fields :: "table \<Rightarrow> string list" where
  "idx_fields trial_data = filter (\<lambda>col. startswith col ''idx'') (map fst (columns trial_data))"

definition backshift_col :: "table \<Rightarrow> string \<Rightarrow> error + table" where
  "backshift_col trial_data col =
     and_then (getitem trial_data col) (\<lambda>(obj, cells).
     and_then (list_comp sub1 cells) (\<lambda>vs.
     setitem trial_data col vs))"

definition backshift_idx_fields :: "table \<Rightarrow> (error \<times> table) + table" where
  "backshift_idx_fields trial_data = for_each backshift_col (idx_fields trial_data) trial_data"

subsection \<open>\<^verbatim>\<open>clean_0d_array_fields\<close>\<close>

text \<open>Attribute access on a cell: only an array has \<^verbatim>\<open>ndim\<close>, \<^verbatim>\<open>reshape\<close> and \<^verbatim>\<open>item\<close>.\<close>

fun cell_ndim :: "cell \<Rightarrow> error + nat" where
  "cell_ndim (Arr a) = Inr (ndim a)"
| "cell_ndim _ = Inl AttributeError"

fun cell_reshape_row :: "cell \<Rightarrow> error + cell" where
  "cell_reshape_row (Arr a) = Inr (Arr (reshape_row a))"
| "cell_reshape_row _ = Inl AttributeError"

fun cell_item :: "cell \<Rightarrow> error + cell" where
  "cell_item (Arr a) = item a"
| "cell_item _ = Inl AttributeError"

definition spike_fields :: "table \<Rightarrow> string list" where
  "spike_fields df = filter (\<lambda>name. endswith name ''_spikes'') (map fst (columns df))"

text \<open>\<^verbatim>\<open>arr if arr.ndim == 2 else arr.reshape(1,-1)\<close>.\<close>

definition ensure_2d :: "cell \<Rightarrow> error + cell" where
  "ensure_2d arr = and_then (cell_ndim arr) (\<lambda>n. if n = 2 then Inr arr else cell_reshape_row arr)"

definition clean_0d_array_col :: "table \<Rightarrow> string \<Rightarrow> error + table" where
  "clean_0d_array_col df c =
     and_then (getitem df c) (\<lambda>(obj, cells).
     and_then (list_comp ensure_2d cells) (\<lambda>vs.
     setitem df c vs))"

definition clean_0d_array_fields :: "table \<Rightarrow> (error \<times> table) + table" where
  "clean_0d_array_fields df = for_each clean_0d_array_col (spike_fields df) df"

subsection \<open>\<^verbatim>\<open>clean_0d_spike_fields\<close>\<close>

definition clean_0d_spike_col :: "table \<Rightarrow> string \<Rightarrow> error + table" where
  "clean_0d_spike_col df c =
     and_then (getitem df c) (\<lambda>(obj, cells).
       if list_all is_ndarray cells then
         and_then (list_comp (\<lambda>arr. and_then (cell_ndim arr) (\<lambda>n. Inr (n = 0))) cells) (\<lambda>flags.
           if list_all id flags then
             and_then (list_comp cell_item cells) (\<lambda>vs. setitem df c vs)
           else Inr df)
       else Inr df)"

definition clean_0d_spike_fields :: "table \<Rightarrow> (error \<times> table) + table" where
  "clean_0d_spike_fields df = for_each clean_0d_spike_col (map fst (columns df)) df"

subsection \<open>\<^verbatim>\<open>clean_integer_fields\<close>\<close>

text \<open>
  What numpy does with one number is a floating-point and platform matter, and a parameter
  of the model; the theorems hold for every choice of it:
  \<^item> \<open>cast32\<close>, the cast of an element of a numeric array to a 32-bit signed integer, which
    never raises (out of range, or on NaN, it wraps or saturates, with a warning at most);
  \<^item> \<open>cast32_scalar\<close>, the conversion \<^verbatim>\<open>np.int32(x)\<close> of a Python number, which may raise
    (\<^verbatim>\<open>ValueError\<close> on NaN, \<^verbatim>\<open>OverflowError\<close> on an infinity or out of range);
  \<^item> \<open>isclose\<close>, the comparison of two numbers within the default tolerance of
    \<^verbatim>\<open>np.allclose\<close>;
  \<^item> \<open>int32_of_str\<close>, the reading of a string as a 32-bit integer, which may raise.
\<close>

record numpy =
  cast32 :: "num \<Rightarrow> num"
  cast32_scalar :: "num \<Rightarrow> error + num"
  isclose :: "num \<Rightarrow> num \<Rightarrow> bool"
  int32_of_str :: "string \<Rightarrow> error + num"

text \<open>
  \<^verbatim>\<open>np.int32(x)\<close> on a cell: a number or a string gives a scalar, or raises; an array is
  cast elementwise into an \<^verbatim>\<open>int32\<close> array of its shape, and a 0-dimensional array comes
  back as a scalar; a list is converted item by item into a 1-dimensional \<^verbatim>\<open>int32\<close> array.
\<close>

fun np_int32 :: "numpy \<Rightarrow> cell \<Rightarrow> error + cell" where
  "np_int32 np (Num x) = and_then (cast32_scalar np x) (\<lambda>y. Inr (Num y))"
| "np_int32 np (Str s) = and_then (int32_of_str np s) (\<lambda>y. Inr (Num y))"
| "np_int32 np (Seq xs) =
     and_then (list_comp (cast32_scalar np) xs) (\<lambda>ys. Inr (Arr (NDArray (SInt 32) [length xs] ys)))"
| "np_int32 np (Arr a) =
     Inr (case (shape a, elems a) of
            ([], [x]) \<Rightarrow> Num (cast32 np x)
          | _ \<Rightarrow> Arr (NDArray (SInt 32) (shape a) (map (cast32 np) (elems a))))"

text \<open>The numbers numpy compares in a cell; a string is not numeric.\<close>

fun cell_nums :: "cell \<Rightarrow> error + num list" where
  "cell_nums (Num x) = Inr [x]"
| "cell_nums (Arr a) = Inr (elems a)"
| "cell_nums (Seq xs) = Inr xs"
| "cell_nums (Str s) = Inl TypeError"

text \<open>
  \<^verbatim>\<open>np.allclose(a, b)\<close>. The transform only compares a value with its own cast, which has
  as many elements; operands with different numbers of elements are refused here
  (numpy's broadcasting is not modelled), and a string cannot be compared at all.
\<close>

definition np_allclose :: "numpy \<Rightarrow> cell \<Rightarrow> cell \<Rightarrow> error + bool" where
  "np_allclose np a b =
     and_then (cell_nums a) (\<lambda>xs.
     and_then (cell_nums b) (\<lambda>ys.
       if length xs = length ys then Inr (list_all2 (isclose np) xs ys) else Inl ValueError))"

text \<open>
  \<^verbatim>\<open>np.int32(df[field])\<close> on a whole column. A column of a numeric dtype is a numeric
  array and is cast elementwise, which never raises (such a column holds numbers only;
  on anything else the model raises). A column of dtype \<^verbatim>\<open>object\<close> is converted object by
  object: a number and a string as \<^verbatim>\<open>np.int32\<close> converts them alone, an array of one
  element as that element, and any other array or a list raises.
\<close>

fun np_int32_element :: "numpy \<Rightarrow> cell \<Rightarrow> error + cell" where
  "np_int32_element np (Num x) = Inr (Num (cast32 np x))"
| "np_int32_element np _ = Inl TypeError"

fun np_int32_object :: "numpy \<Rightarrow> cell \<Rightarrow> error + cell" where
  "np_int32_object np (Num x) = and_then (cast32_scalar np x) (\<lambda>y. Inr (Num y))"
| "np_int32_object np (Str s) = and_then (int32_of_str np s) (\<lambda>y. Inr (Num y))"
| "np_int32_object np (Arr a) =
     (case elems a of [x] \<Rightarrow> and_then (cast32_scalar np x) (\<lambda>y. Inr (Num y)) | _ \<Rightarrow> Inl TypeError)"
| "np_int32_object np (Seq xs) = Inl TypeError"

definition np_int32_series :: "numpy \<Rightarrow> column \<Rightarrow> error + cell list" where
  "np_int32_series np col =
     (case col of (obj, cells) \<Rightarrow>
        list_comp (if obj then np_int32_object np else np_int32_element np) cells)"

text \<open>
  \<^verbatim>\<open>np.allclose(int_version, df[field])\<close> on a whole column: numpy compares numeric arrays
  elementwise, and raises TypeError on an array of dtype \<^verbatim>\<open>object\<close>, whatever it holds.
\<close>

fun cell_num :: "cell \<Rightarrow> error + num" where
  "cell_num (Num x) = Inr x"
| "cell_num _ = Inl TypeError"

definition np_allclose_series :: "numpy \<Rightarrow> cell list \<Rightarrow> column \<Rightarrow> error + bool" where
  "np_allclose_series np int_version col =
     (case col of (obj, cells) \<Rightarrow>
        if obj then Inl TypeError
        else
          and_then (list_comp cell_num int_version) (\<lambda>xs.
          and_then (list_comp cell_num cells) (\<lambda>ys.
            if length xs = length ys then Inr (list_all2 (isclose np) xs ys) else Inl ValueError)))"

text \<open>\<^verbatim>\<open>df[field].values[0]\<close>.\<close>

definition first_value :: "cell list \<Rightarrow> error + cell" where
  "first_value cells = (case cells of [] \<Rightarrow> Inl IndexError | v # _ \<Rightarrow> Inr v)"

text \<open>The body of the \<^verbatim>\<open>try\<close>, for one field.\<close>

definition try_field :: "numpy \<Rightarrow> table \<Rightarrow> string \<Rightarrow> error + table" where
  "try_field np df field =
     and_then (getitem df field) (\<lambda>col.
     and_then (first_value (snd col)) (\<lambda>v0.
       if is_ndarray v0 then
         and_then (list_comp (np_int32 np) (snd col)) (\<lambda>int_arrays.
         and_then (list_comp (\<lambda>(int_arr, arr). np_allclose np int_arr arr) (zip int_arrays (snd col)))
           (\<lambda>oks.
             if list_all id oks then setitem df field int_arrays else Inr df))
       else if \<not> is_str v0 then
         and_then (np_int32_series np col) (\<lambda>int_version.
         and_then (np_allclose_series np int_version col) (\<lambda>ok.
           if ok then setitem df field int_version else Inr df))
       else Inr df))"

text \<open>
  The loop with its bare \<^verbatim>\<open>except\<close>: whatever the body raises, the field is appended to
  \<^verbatim>\<open>bad_fields\<close> and the loop goes on with the table as it stood.
\<close>

fun clean_loop :: "numpy \<Rightarrow> string list \<Rightarrow> table \<Rightarrow> string list \<Rightarrow> table \<times> string list" where
  "clean_loop np [] df bad_fields = (df, bad_fields)"
| "clean_loop np (field # rest) df bad_fields =
     (case try_field np df field of
        Inl e \<Rightarrow> clean_loop np rest df (bad_fields @ [field])
      | Inr df' \<Rightarrow> clean_loop np rest df' bad_fields)"

text \<open>
  A line on standard output. The only line this module prints is
  \<^verbatim>\<open>fields: [...] could not be converted to int.\<close>, kept here by the list it shows.
\<close>

datatype message = CouldNotConvert "string list"

text \<open>The transform returns the table and has printed the lines of the second component.\<close>

definition clean_integer_fields :: "numpy \<Rightarrow> table \<Rightarrow> table \<times> message list" where
  "clean_integer_fields np df =
     (case clean_loop np (map fst (columns df)) df [] of (df', bad_fields) \<Rightarrow>
        let bad_fields' = filter (\<lambda>field. \<not> contains ''label'' (lower field)) bad_fields
        in (df', if bad_fields' \<noteq> [] then [CouldNotConvert bad_fields'] else []))"

subsection \<open>A reference instance of the numpy parameters\<close>

text \<open>
  For the examples: the cast of an array element truncates towards zero and wraps an
  integer into 32 bits (a float out of range, NaN or an infinity becomes the least 32-bit
  integer, as the x86 conversion gives); the conversion of a Python number truncates
  towards zero too, and raises \<^verbatim>\<open>ValueError\<close> on NaN and \<^verbatim>\<open>OverflowError\<close> on an infinity and
  out of range; closeness is \<open>|a - b| \<le> atol + rtol * |b|\<close> with numpy's defaults
  \<open>rtol = 1e-5\<close> and \<open>atol = 1e-8\<close> computed exactly; and a string of decimal digits is read
  as the integer it writes.
\<close>

definition int32_wrap :: "int \<Rightarrow> int" where
  "int32_wrap i = (i + 2147483648) mod 4294967296 - 2147483648"

fun cast32_ref :: "num \<Rightarrow> num" where
  "cast32_ref (IntV i) = IntV (int32_wrap i)"
| "cast32_ref (FloatV r) =
     (let t = (if 0 \<le> r then \<lfloor>r\<rfloor> else \<lceil>r\<rceil>)
      in if - 2147483648 \<le> t \<and> t < 2147483648 then IntV t else IntV (- 2147483648))"
| "cast32_ref _ = IntV (- 2147483648)"

definition in_int32 :: "int \<Rightarrow> bool" where
  "in_int32 t \<longleftrightarrow> - 2147483648 \<le> t \<and> t < 2147483648"

fun cast32_scalar_ref :: "num \<Rightarrow> error + num" where
  "cast32_scalar_ref (IntV i) = (if in_int32 i then Inr (IntV i) else Inl OverflowError)"
| "cast32_scalar_ref (FloatV r) =
     (let t = (if 0 \<le> r then \<lfloor>r\<rfloor> else \<lceil>r\<rceil>)
      in if in_int32 t then Inr (IntV t) else Inl OverflowError)"
| "cast32_scalar_ref NaN = Inl ValueError"
| "cast32_scalar_ref x = Inl OverflowError"

fun finite_value :: "num \<Rightarrow> rat option" where
  "finite_value (IntV i) = Some (of_int i)"
| "finite_value (FloatV r) = Some r"
| "finite_value _ = None"

definition isclose_ref :: "num \<Rightarrow> num \<Rightarrow> bool" where
  "isclose_ref a b =
     (case (finite_value a, finite_value b) of
        (Some x, Some y) \<Rightarrow> \<bar>x - y\<bar> \<le> 1 / 100000000 + (1 / 100000) * \<bar>y\<bar>
      | _ \<Rightarrow> a = b \<and> a \<noteq> NaN)"

definition digit_value :: "char \<Rightarrow> int option" where
  "digit_value c = map_of (zip ''0123456789'' [0, 1, 2, 3, 4, 5, 6, 7, 8, 9]) c"

fun decimal :: "int \<Rightarrow> string \<Rightarrow> int option" where
  "decimal acc [] = Some acc"
| "decimal acc (c # cs) =
     (case digit_value c of None \<Rightarrow> None | Some d \<Rightarrow> decimal (10 * acc + d) cs)"

definition int32_of_str_ref :: "string \<Rightarrow> error + num" where
  "int32_of_str_ref s =
     (if s = [] then Inl ValueError
      else case decimal 0 s of
             None \<Rightarrow> Inl ValueError
           | Some v \<Rightarrow> if v < 2147483648 then Inr (IntV v) else Inl ValueError)"

definition np_ref :: numpy where
  "np_ref = \<lparr>cast32 = cast32_ref, cast32_scalar = cast32_scalar_ref, isclose = isclose_ref,
     int32_of_str = int32_of_str_ref\<rparr>"

section \<open>Calls through references: the decorator\<close>

text \<open>
  A DataFrame is an object; a caller holds a reference to it. The store lists the objects
  by address. Each transform above assigns into the columns of the object it is given and
  returns that same object: run in place on the object at \<open>r\<close>, it leaves its final table
  there (also when it ends with an exception) and returns \<open>r\<close>. A reference that is not
  an address of the store, which Python does not have, gives an error.

  The arrays in the cells are values here: no transform writes into the elements of an
  array, and the sharing of array buffers between a table and its copy is not modelled.
\<close>

type_synonym ref = nat
type_synonym store = "table list"

definition in_place ::
  "(table \<Rightarrow> (error \<times> table) + table) \<Rightarrow> store \<Rightarrow> ref \<Rightarrow> store \<times> (error + ref)"
where
  "in_place body s r =
     (if r < length s then
        (case body (s ! r) of
           Inl (e, t) \<Rightarrow> (s[r := t], Inl e)
         | Inr t \<Rightarrow> (s[r := t], Inr r))
      else (s, Inl KeyError))"

text \<open>\<^verbatim>\<open>df.copy()\<close>: a new object with the same columns, at a fresh address.\<close>

definition df_copy :: "store \<Rightarrow> ref \<Rightarrow> store \<times> ref" where
  "df_copy s r = (s @ [s ! r], length s)"

text \<open>
  Modelled from the spec: \<^verbatim>\<open>utils.copy_td\<close> is not among the sources. Section 4.1 of the
  specification: "before any column is modified, the transform operates on a full
  independent copy of the input table [...]. The return value is this copy, with the
  stated modifications applied."
\<close>

definition copy_td ::
  "(store \<Rightarrow> ref \<Rightarrow> store \<times> (error + ref)) \<Rightarrow> store \<Rightarrow> ref \<Rightarrow> store \<times> (error + ref)"
where
  "copy_td func s r =
     (if r < length s then (case df_copy s r of (s', r') \<Rightarrow> func s' r')
      else (s, Inl KeyError))"

text \<open>The four functions as the module exports them, decorated.\<close>

definition backshift_idx_fields_call :: "store \<Rightarrow> ref \<Rightarrow> store \<times> (error + ref)" where
  "backshift_idx_fields_call = copy_td (in_place backshift_idx_fields)"

definition clean_0d_array_fields_call :: "store \<Rightarrow> ref \<Rightarrow> store \<times> (error + ref)" where
  "clean_0d_array_fields_call = copy_td (in_place clean_0d_array_fields)"

definition clean_0d_spike_fields_call :: "store \<Rightarrow> ref \<Rightarrow> store \<times> (error + ref)" where
  "clean_0d_spike_fields_call = copy_td (in_place clean_0d_spike_fields)"

definition clean_integer_fields_call :: "numpy \<Rightarrow> store \<Rightarrow> ref \<Rightarrow> store \<times> (error + ref)" where
  "clean_integer_fields_call np =
     copy_td (in_place (\<lambda>df. Inr (fst (clean_integer_fields np df))))"

section \<open>Notions used in the statements and proofs\<close>




text \<open>An \<^verbatim>\<open>idx\<close> column after the assignment of \<^verbatim>\<open>[idx - 1 for idx in column]\<close>.\<close>

definition backshift_column :: "column \<Rightarrow> column" where
  "backshift_column col =
     (infer_object (map (\<lambda>c. projr (sub1 c)) (snd col)), map (\<lambda>c. projr (sub1 c)) (snd col))"

text \<open>A \<^verbatim>\<open>_spikes\<close> column after the assignment of the 2-dimensional arrays.\<close>

definition ensure_2d_column :: "column \<Rightarrow> column" where
  "ensure_2d_column col =
     (infer_object (map (\<lambda>c. projr (ensure_2d c)) (snd col)), map (\<lambda>c. projr (ensure_2d c)) (snd col))"

text \<open>Every cell of the column is a 0-dimensional array.\<close>

definition all_0d :: "cell list \<Rightarrow> bool" where
  "all_0d cs \<longleftrightarrow> (\<forall>c\<in>set cs. \<exists>a. c = Arr a \<and> ndim a = 0)"

text \<open>A column after \<^verbatim>\<open>clean_0d_spike_fields\<close> has looked at it.\<close>

definition collapse_column :: "column \<Rightarrow> column" where
  "collapse_column col =
     (if all_0d (snd col)
      then (infer_object (map (\<lambda>c. projr (cell_item c)) (snd col)), map (\<lambda>c. projr (cell_item c)) (snd col))
      else col)"

text \<open>
  The \<^verbatim>\<open>try\<close> body seen from one column: the column it leaves (the casts with the dtype
  pandas infers for them, or the column as it is when nothing is assigned), or the
  exception. The lemma \<open>try_field_column\<close> relates it to \<open>try_field\<close>; the claims are stated
  on \<open>try_field\<close> and \<open>clean_integer_fields\<close>.
\<close>

definition convert_column :: "numpy \<Rightarrow> column \<Rightarrow> error + column" where
  "convert_column np col =
     and_then (first_value (snd col)) (\<lambda>v0.
       if is_ndarray v0 then
         and_then (list_comp (np_int32 np) (snd col)) (\<lambda>int_arrays.
         and_then (list_comp (\<lambda>(int_arr, arr). np_allclose np int_arr arr) (zip int_arrays (snd col)))
           (\<lambda>oks. if list_all id oks then Inr (infer_object int_arrays, int_arrays) else Inr col))
       else if \<not> is_str v0 then
         and_then (np_int32_series np col) (\<lambda>int_version.
         and_then (np_allclose_series np int_version col) (\<lambda>ok.
           if ok then Inr (infer_object int_version, int_version) else Inr col))
       else Inr col)"

text \<open>The column after the \<^verbatim>\<open>try\<close> and its \<^verbatim>\<open>except\<close>.\<close>

definition new_column :: "numpy \<Rightarrow> column \<Rightarrow> column" where
  "new_column np col = (case convert_column np col of Inl e \<Rightarrow> col | Inr col' \<Rightarrow> col')"

text \<open>The fields whose \<^verbatim>\<open>try\<close> body raises on the table, in column order.\<close>

definition failed_fields :: "numpy \<Rightarrow> table \<Rightarrow> string list" where
  "failed_fields np df = filter (\<lambda>field. isl (try_field np df field)) (map fst (columns df))"


text \<open>
  What the idempotence of the down-casting needs of numpy: whatever a cast gives (of an
  array element, of a Python number, of a string) is a 32-bit integer, which a second
  cast of either kind returns as it is.
\<close>

definition cast_fixed :: "numpy \<Rightarrow> num \<Rightarrow> bool" where
  "cast_fixed np y \<longleftrightarrow> cast32 np y = y \<and> cast32_scalar np y = Inr y"

definition np_cast_stable :: "numpy \<Rightarrow> bool" where
  "np_cast_stable np \<longleftrightarrow>
     (\<forall>x. cast_fixed np (cast32 np x)) \<and>
     (\<forall>x y. cast32_scalar np x = Inr y \<longrightarrow> cast_fixed np y) \<and>
     (\<forall>s y. int32_of_str np s = Inr y \<longrightarrow> cast_fixed np y)"

text \<open>A cell of \<^verbatim>\<open>int32\<close> values: every form of the cast returns it as it is.\<close>

fun stable_cell :: "numpy \<Rightarrow> cell \<Rightarrow> bool" where
  "stable_cell np (Num y) = cast_fixed np y"
| "stable_cell np (Arr a) =
     (dtype_of a = SInt 32 \<and> \<not> (\<exists>x. shape a = [] \<and> elems a = [x]) \<and> list_all (cast_fixed np) (elems a))"
| "stable_cell np c = False"

text \<open>
  The second table has the row labels of the first in the same order, the same column
  names in the same order, and one cell per row in every column.
\<close>

definition same_rows_and_columns :: "table \<Rightarrow> table \<Rightarrow> bool" where
  "same_rows_and_columns df df' \<longleftrightarrow>
     index df' = index df \<and> map fst (columns df') = map fst (columns df) \<and>
     (\<forall>(n, obj, cs)\<in>set (columns df'). length cs = length (index df))"

text \<open>
  A call \<open>f s r\<close> keeps every object of the store \<open>s\<close>; the reference it returns, if it
  returns, is a new address, and no assignment in place through it reaches the object at
  \<open>r\<close>.
\<close>

definition leaves_caller_table ::
  "(store \<Rightarrow> ref \<Rightarrow> store \<times> (error + ref)) \<Rightarrow> store \<Rightarrow> ref \<Rightarrow> bool"
where
  "leaves_caller_table f s r \<longleftrightarrow>
     (case f s r of (s', res) \<Rightarrow>
        length s \<le> length s' \<and> (\<forall>a<length s. s' ! a = s ! a) \<and>
        (case res of
           Inl e \<Rightarrow> True
         | Inr r' \<Rightarrow> r' \<noteq> r \<and> length s \<le> r' \<and> r' < length s' \<and>
                    (\<forall>body. fst (in_place body s' r') ! r = s ! r)))"

section \<open>Example tables\<close>

text \<open>
  The examples of the specification's section 8 and a few more: index columns, spike
  columns with arrays of rank 0, 1 and 2, float columns that are and are not whole numbers,
  and columns on which the cast or the closeness test raises.
\<close>

definition ex_idx :: table where
  "ex_idx = \<lparr>index = [0, 1, 2],
     columns = [(''idx_start'', False, [Num (IntV 5), Num (IntV 10), Num (IntV 1)]),
                (''idx_events'', True, [Arr (NDArray (SInt 64) [2] [IntV 3, IntV 7]),
                                        Arr (NDArray (SInt 64) [1] [IntV 1]),
                                        Arr (NDArray (SInt 64) [0] [])]),
                (''idx_go'', True, [Arr (NDArray Floating [] [FloatV 12]),
                                    Arr (NDArray Floating [2] [FloatV 3, NaN]),
                                    Num (FloatV 8)]),
                (''monkey'', True, [Str ''A'', Str ''B'', Str ''C''])]\<rparr>"


definition ex_idx_list :: table where
  "ex_idx_list = \<lparr>index = [0],
     columns = [(''idx_target_on'', True, [Seq [IntV 3, IntV 7]])]\<rparr>"

definition ex_spikes :: table where
  "ex_spikes = \<lparr>index = [0, 1, 2],
     columns = [(''m1_spikes'', True, [Arr (NDArray (SInt 64) [] [IntV 7]),
                                       Arr (NDArray (SInt 64) [2, 2] [IntV 1, IntV 2, IntV 3, IntV 4]),
                                       Arr (NDArray (UInt 8) [3] [IntV 0, IntV 1, IntV 0])]),
                (''bin_size'', True, [Arr (NDArray Floating [] [FloatV (1 / 100)]),
                                      Arr (NDArray Floating [] [FloatV (1 / 100)]),
                                      Arr (NDArray Floating [] [FloatV (1 / 100)])]),
                (''trial_id'', True, [Arr (NDArray (SInt 64) [] [IntV 3]), Arr (NDArray (SInt 64) [] [IntV 5]),
                                      Arr (NDArray (SInt 64) [] [IntV 2])]),
                (''mixed'', True, [Arr (NDArray (SInt 64) [1] [IntV 3]), Arr (NDArray (SInt 64) [] [IntV 5]),
                                   Arr (NDArray (SInt 64) [] [IntV 2])])]\<rparr>"

definition ex_floats :: table where
  "ex_floats = \<lparr>index = [0, 1, 2],
     columns = [(''trial_id'', False, [Num (FloatV 1), Num (FloatV 2), Num (FloatV 3)]),
                (''speed'', False, [Num (FloatV 1), Num (FloatV (5 / 2)), Num (FloatV 3)]),
                (''monkey'', True, [Str ''A'', Str ''B'', Str ''C'']),
                (''idx_go'', True, [Arr (NDArray Floating [2] [FloatV 3, FloatV 7]),
                                    Arr (NDArray Floating [1] [FloatV 1]),
                                    Arr (NDArray Floating [0] [])]),
                (''pos'', True, [Arr (NDArray Floating [1] [FloatV (1 / 2)]),
                                 Arr (NDArray Floating [1] [FloatV 1]),
                                 Arr (NDArray Floating [1] [FloatV 2])])]\<rparr>"

definition ex_floats_cast :: table where
  "ex_floats_cast = \<lparr>index = [0, 1, 2],
     columns = [(''trial_id'', False, [Num (IntV 1), Num (IntV 2), Num (IntV 3)]),
                (''speed'', False, [Num (FloatV 1), Num (FloatV (5 / 2)), Num (FloatV 3)]),
                (''monkey'', True, [Str ''A'', Str ''B'', Str ''C'']),
                (''idx_go'', True, [Arr (NDArray (SInt 32) [2] [IntV 3, IntV 7]),
                                    Arr (NDArray (SInt 32) [1] [IntV 1]),
                                    Arr (NDArray (SInt 32) [0] [])]),
                (''pos'', True, [Arr (NDArray Floating [1] [FloatV (1 / 2)]),
                                 Arr (NDArray Floating [1] [FloatV 1]),
                                 Arr (NDArray Floating [1] [FloatV 2])])]\<rparr>"

text \<open>
  A table on which the \<^verbatim>\<open>try\<close> body raises in several ways: \<^verbatim>\<open>ratings\<close> holds numbers in a
  column of dtype \<^verbatim>\<open>object\<close>, \<^verbatim>\<open>notes\<close> a number and a word, \<^verbatim>\<open>codes\<close> an array and a string
  of digits, \<^verbatim>\<open>waveform\<close> an array and a NaN, and two columns have \<^verbatim>\<open>label\<close> in their name,
  one of them in capitals.
\<close>

definition ex_mixed :: table where
  "ex_mixed = \<lparr>index = [0, 1],
     columns = [(''trial_id'', False, [Num (FloatV 1), Num (FloatV 2)]),
                (''ratings'', True, [Num (FloatV 1), Num (FloatV 2)]),
                (''notes'', True, [Num (FloatV 1), Str ''abc'']),
                (''codes'', True, [Arr (NDArray Floating [1] [FloatV 1]), Str ''12'']),
                (''waveform'', True, [Arr (NDArray Floating [1] [FloatV 1]), Num NaN]),
                (''target_label'', True, [Num (FloatV 1), Str ''left'']),
                (''Cue_LABEL'', True, [Num (FloatV 1), Str ''up'']),
                (''monkey'', True, [Str ''A'', Str ''B''])]\<rparr>"


section \<open>Basic facts\<close>

lemma and_then_Inl [simp]: "and_then (Inl e) f = Inl e"
  by (simp add: and_then_def)

lemma and_then_Inr [simp]: "and_then (Inr x) f = f x"
  by (simp add: and_then_def)

lemma and_then_eq_Inr:
  "and_then r f = Inr y \<longleftrightarrow> (\<exists>x. r = Inr x \<and> f x = Inr y)"
  by (cases r) simp_all

lemma list_comp_eq_Inr:
  "list_comp f xs = Inr ys \<longleftrightarrow> list_all2 (\<lambda>x y. f x = Inr y) xs ys"
proof (induction xs arbitrary: ys)
  case Nil
  show ?case by auto
next
  case (Cons x xs)
  show ?case
    by (cases ys) (auto simp: and_then_eq_Inr Cons.IH)
qed

lemma list_comp_length:
  "list_comp f xs = Inr ys \<Longrightarrow> length ys = length xs"
  by (simp add: list_comp_eq_Inr list_all2_lengthD)

lemma list_comp_map:
  "(\<And>x. x \<in> set xs \<Longrightarrow> f x = Inr (g x)) \<Longrightarrow> list_comp f xs = Inr (map g xs)"
  by (induction xs) simp_all

lemma list_comp_Inl:
  "list_comp f xs = Inl e \<Longrightarrow> \<exists>x\<in>set xs. f x = Inl e"
proof (induction xs)
  case Nil
  then show ?case by simp
next
  case (Cons x xs)
  then show ?case
    by (cases "f x"; cases "list_comp f xs") auto
qed

lemma map_of_distinct_mem:
  "distinct (map fst al) \<Longrightarrow> (n, v) \<in> set al \<Longrightarrow> map_of al n = Some v"
  by simp

lemma update_as_map:
  "distinct (map fst al) \<Longrightarrow> map_of al k = Some w \<Longrightarrow>
   AList.update k v al = map (\<lambda>(n, x). if n = k then (n, v) else (n, x)) al"
proof (induction al)
  case Nil
  then show ?case by simp
next
  case (Cons p al)
  obtain n x where p: "p = (n, x)" by (cases p)
  show ?case
  proof (cases "n = k")
    case True
    with Cons.prems p have "k \<notin> fst ` set al" by auto
    then have "map (\<lambda>(n, x). if n = k then (n, v) else (n, x)) al = al"
      by (induction al) auto
    with True p show ?thesis by simp
  next
    case False
    with Cons p show ?thesis by auto
  qed
qed

lemma for_each_columns:
  assumes "distinct (map fst (columns df))" and "distinct fs"
    and "\<forall>c\<in>set fs. \<exists>col. map_of (columns df) c = Some col \<and> Q c col"
    and "\<And>d c col. c \<in> set fs \<Longrightarrow> map_of (columns d) c = Some col \<Longrightarrow> Q c col \<Longrightarrow>
           index d = index df \<Longrightarrow>
           body d c = Inr (d\<lparr>columns := AList.update c (g c col) (columns d)\<rparr>)"
  shows "for_each body fs df =
     Inr (df\<lparr>columns := map (\<lambda>(n, col). if n \<in> set fs then (n, g n col) else (n, col)) (columns df)\<rparr>)"
  using assms
proof (induction fs arbitrary: df)
  case Nil
  then show ?case by (simp add: case_prod_unfold)
next
  case (Cons c fs)
  from Cons.prems(3) obtain col where col: "map_of (columns df) c = Some col" "Q c col"
    by auto
  define d1 where "d1 = df\<lparr>columns := AList.update c (g c col) (columns df)\<rparr>"
  have step: "body df c = Inr d1"
    unfolding d1_def by (rule Cons.prems(4)) (use col in auto)
  have upd: "columns d1 = map (\<lambda>(n, x). if n = c then (n, g c col) else (n, x)) (columns df)"
    unfolding d1_def using update_as_map[OF Cons.prems(1) col(1)] by simp
  have d1_dist: "distinct (map fst (columns d1))"
    unfolding d1_def using Cons.prems(1) by (simp add: distinct_update)
  have d1_mem: "\<forall>c'\<in>set fs. \<exists>col. map_of (columns d1) c' = Some col \<and> Q c' col"
  proof
    fix c' assume c': "c' \<in> set fs"
    with Cons.prems(2) have "c' \<noteq> c" by auto
    then have "map_of (columns d1) c' = map_of (columns df) c'"
      unfolding d1_def by (simp add: update_conv')
    with Cons.prems(3) c' show "\<exists>col. map_of (columns d1) c' = Some col \<and> Q c' col" by auto
  qed
  have IH: "for_each body fs d1 =
     Inr (d1\<lparr>columns := map (\<lambda>(n, col). if n \<in> set fs then (n, g n col) else (n, col)) (columns d1)\<rparr>)"
  proof (rule Cons.IH[OF d1_dist _ d1_mem])
    show "distinct fs" using Cons.prems(2) by simp
  next
    fix d :: table and c' col'
    assume "c' \<in> set fs" "map_of (columns d) c' = Some col'" "Q c' col'" "index d = index d1"
    then show "body d c' = Inr (d\<lparr>columns := AList.update c' (g c' col') (columns d)\<rparr>)"
      using Cons.prems(4)[of c' d col'] by (simp add: d1_def)
  qed
  have cols: "map (\<lambda>(n, col). if n \<in> set fs then (n, g n col) else (n, col)) (columns d1) =
      map (\<lambda>(n, col). if n \<in> set (c # fs) then (n, g n col) else (n, col)) (columns df)"
    unfolding upd map_map
  proof (rule map_cong[OF refl])
    fix p assume p: "p \<in> set (columns df)"
    obtain n x where nx: "p = (n, x)" by (cases p)
    have "n = c \<Longrightarrow> x = col"
      using map_of_distinct_mem[OF Cons.prems(1)] p nx col(1) by auto
    then show "((\<lambda>(n, col). if n \<in> set fs then (n, g n col) else (n, col)) \<circ>
           (\<lambda>(n, x). if n = c then (n, g c col) else (n, x))) p =
          (case p of (n, col) \<Rightarrow> if n \<in> set (c # fs) then (n, g n col) else (n, col))"
      using nx Cons.prems(2) by auto
  qed
  show ?case
    using step IH cols by (simp add: d1_def)
qed

lemma getitem_Some: "map_of (columns df) c = Some col \<Longrightarrow> getitem df c = Inr col"
  by (simp add: getitem_def)

lemma valid_table_column:
  "valid_table df \<Longrightarrow> (n, obj, cs) \<in> set (columns df) \<Longrightarrow>
   map_of (columns df) n = Some (obj, cs) \<and> length cs = length (index df) \<and> list_all wf_cell cs \<and>
   (\<not> obj \<longrightarrow> list_all is_num cs)"
  by (auto simp: valid_table_def)

lemma map_of_map_columns:
  "distinct (map fst al) \<Longrightarrow> (n, col) \<in> set al \<Longrightarrow>
   map_of (map (\<lambda>(n, col). (n, f n col)) al) n = Some (f n col)"
  by (induction al) (auto simp: rev_image_eqI)

lemma map_fst_map_columns: "map fst (map (\<lambda>(n, col). (n, f n col)) al) = map fst al"
  by (induction al) auto

lemma record_columns_same [simp]: "df\<lparr>columns := columns df\<rparr> = df"
  by simp

lemma for_each_names:
  assumes "for_each body fs df = Inr df'"
    and "\<And>d c d'. body d c = Inr d' \<Longrightarrow> P d \<Longrightarrow> P d'"
    and "P df"
  shows "P df'"
  using assms
proof (induction fs arbitrary: df)
  case Nil
  then show ?case by simp
next
  case (Cons c fs)
  then show ?case
    by (cases "body df c") auto
qed

section \<open>Index rebasing\<close>

lemma sub1_projr: "is_num c \<or> is_ndarray c \<Longrightarrow> sub1 c = Inr (projr (sub1 c))"
  by (cases c) simp_all

lemma backshift_idx_fields_result:
  assumes "valid_table td"
    and "\<forall>(n, obj, cs) \<in> set (columns td). startswith n ''idx'' \<longrightarrow> (\<forall>c\<in>set cs. is_num c \<or> is_ndarray c)"
  shows "backshift_idx_fields td =
     Inr (td\<lparr>columns := map (\<lambda>(n, col). if startswith n ''idx''
                                   then (n, backshift_column col) else (n, col))
                             (columns td)\<rparr>)"
proof -
  let ?Q = "\<lambda>(c::string) (col::column). length (snd col) = length (index td) \<and>
              (\<forall>x\<in>set (snd col). is_num x \<or> is_ndarray x)"
  let ?g = "\<lambda>(c::string). backshift_column"
  have dist: "distinct (map fst (columns td))"
    using assms(1) by (simp add: valid_table_def)
  have "for_each backshift_col (idx_fields td) td =
     Inr (td\<lparr>columns := map (\<lambda>(n, col). if n \<in> set (idx_fields td) then (n, ?g n col) else (n, col))
                             (columns td)\<rparr>)"
  proof (rule for_each_columns[where Q = ?Q, OF dist])
    show "distinct (idx_fields td)"
      using dist by (simp add: idx_fields_def)
    show "\<forall>c\<in>set (idx_fields td). \<exists>col. map_of (columns td) c = Some col \<and> ?Q c col"
    proof
      fix c assume "c \<in> set (idx_fields td)"
      then obtain obj cs where "(c, obj, cs) \<in> set (columns td)" "startswith c ''idx''"
        by (auto simp: idx_fields_def)
      with assms valid_table_column[OF assms(1)] show "\<exists>col. map_of (columns td) c = Some col \<and> ?Q c col"
        by fastforce
    qed
  next
    fix d :: table and c and col :: column
    assume a: "map_of (columns d) c = Some col" "?Q c col" "index d = index td"
    have "list_comp sub1 (snd col) = Inr (map (\<lambda>x. projr (sub1 x)) (snd col))"
      by (rule list_comp_map) (use a(2) sub1_projr in auto)
    with a show "backshift_col d c = Inr (d\<lparr>columns := AList.update c (?g c col) (columns d)\<rparr>)"
      by (simp add: backshift_col_def getitem_Some setitem_def backshift_column_def case_prod_unfold)
  qed
  moreover have "map (\<lambda>(n, col). if n \<in> set (idx_fields td) then (n, ?g n col) else (n, col)) (columns td)
     = map (\<lambda>(n, col). if startswith n ''idx'' then (n, ?g n col) else (n, col)) (columns td)"
  proof (rule map_cong[OF refl])
    fix p assume "p \<in> set (columns td)"
    then have "fst p \<in> fst ` set (columns td)" by simp
    then show "(case p of (n, col) \<Rightarrow> if n \<in> set (idx_fields td) then (n, ?g n col) else (n, col)) =
        (case p of (n, col) \<Rightarrow> if startswith n ''idx'' then (n, ?g n col) else (n, col))"
      by (cases p) (simp add: idx_fields_def)
  qed
  ultimately show ?thesis
    by (simp add: backshift_idx_fields_def)
qed









text \<open>
  A cell that is a Python list or a string in an \<^verbatim>\<open>idx\<close> column: \<^verbatim>\<open>idx - 1\<close> raises
  TypeError, and the transform ends with it.
\<close>

lemma backshift_idx_fields_list_raises:
  "backshift_idx_fields ex_idx_list = Inl (TypeError, ex_idx_list)"
  by (simp add: ex_idx_list_def backshift_idx_fields_def idx_fields_def startswith_def
      backshift_col_def getitem_def)

section \<open>Ensuring 2-D spike arrays\<close>

lemma ensure_2d_Arr:
  "ensure_2d (Arr a) = Inr (Arr (if ndim a = 2 then a else reshape_row a))"
  by (simp add: ensure_2d_def)

lemma ensure_2d_projr: "is_ndarray c \<Longrightarrow> ensure_2d c = Inr (projr (ensure_2d c))"
  by (cases c) (simp_all add: ensure_2d_def)

lemma clean_0d_array_fields_result:
  assumes "valid_table df"
    and "\<forall>(n, obj, cs) \<in> set (columns df). endswith n ''_spikes'' \<longrightarrow> (\<forall>c\<in>set cs. is_ndarray c)"
  shows "clean_0d_array_fields df =
     Inr (df\<lparr>columns := map (\<lambda>(n, col). if endswith n ''_spikes''
                                   then (n, ensure_2d_column col) else (n, col))
                             (columns df)\<rparr>)"
proof -
  let ?Q = "\<lambda>(c::string) (col::column). length (snd col) = length (index df) \<and>
              (\<forall>x\<in>set (snd col). is_ndarray x)"
  let ?g = "\<lambda>(c::string). ensure_2d_column"
  have dist: "distinct (map fst (columns df))"
    using assms(1) by (simp add: valid_table_def)
  have "for_each clean_0d_array_col (spike_fields df) df =
     Inr (df\<lparr>columns := map (\<lambda>(n, col). if n \<in> set (spike_fields df) then (n, ?g n col) else (n, col))
                             (columns df)\<rparr>)"
  proof (rule for_each_columns[where Q = ?Q, OF dist])
    show "distinct (spike_fields df)"
      using dist by (simp add: spike_fields_def)
    show "\<forall>c\<in>set (spike_fields df). \<exists>col. map_of (columns df) c = Some col \<and> ?Q c col"
    proof
      fix c assume "c \<in> set (spike_fields df)"
      then obtain obj cs where "(c, obj, cs) \<in> set (columns df)" "endswith c ''_spikes''"
        by (auto simp: spike_fields_def)
      with assms valid_table_column[OF assms(1)] show "\<exists>col. map_of (columns df) c = Some col \<and> ?Q c col"
        by fastforce
    qed
  next
    fix d :: table and c and col :: column
    assume a: "map_of (columns d) c = Some col" "?Q c col" "index d = index df"
    have "list_comp ensure_2d (snd col) = Inr (map (\<lambda>x. projr (ensure_2d x)) (snd col))"
      by (rule list_comp_map) (use a(2) ensure_2d_projr in auto)
    with a show "clean_0d_array_col d c = Inr (d\<lparr>columns := AList.update c (?g c col) (columns d)\<rparr>)"
      by (simp add: clean_0d_array_col_def getitem_Some setitem_def ensure_2d_column_def case_prod_unfold)
  qed
  moreover have "map (\<lambda>(n, col). if n \<in> set (spike_fields df) then (n, ?g n col) else (n, col)) (columns df)
     = map (\<lambda>(n, col). if endswith n ''_spikes'' then (n, ?g n col) else (n, col)) (columns df)"
  proof (rule map_cong[OF refl])
    fix p assume "p \<in> set (columns df)"
    then have "fst p \<in> fst ` set (columns df)" by simp
    then show "(case p of (n, col) \<Rightarrow> if n \<in> set (spike_fields df) then (n, ?g n col) else (n, col)) =
        (case p of (n, col) \<Rightarrow> if endswith n ''_spikes'' then (n, ?g n col) else (n, col))"
      by (cases p) (simp add: spike_fields_def)
  qed
  ultimately show ?thesis
    by (simp add: clean_0d_array_fields_def)
qed

text \<open>
  Claim C2. On a table whose \<^verbatim>\<open>_spikes\<close> columns hold arrays, the transform returns; the
  row labels and the column names are as before; in every column whose name ends with
  \<^verbatim>\<open>_spikes\<close> a cell of 2 dimensions is the same and a cell of any other rank becomes the
  array of shape (1, number of elements) with the same elements and the same dtype, so
  that every cell of the column is 2-dimensional on output; every other column is the
  same. The witness runs it on a 0-dimensional 7, on \<^verbatim>\<open>[[1,2],[3,4]]\<close> and on a
  1-dimensional array.
\<close>

theorem clean_0d_array_fields_ensures_2d:
  assumes "valid_table df"
    and "\<forall>(n, obj, cs) \<in> set (columns df). endswith n ''_spikes'' \<longrightarrow> (\<forall>c\<in>set cs. is_ndarray c)"
  shows "\<exists>df'. clean_0d_array_fields df = Inr df' \<and>
     index df' = index df \<and> map fst (columns df') = map fst (columns df) \<and>
     (\<forall>n obj cs. (n, obj, cs) \<in> set (columns df) \<longrightarrow>
        (\<exists>obj' cs'. map_of (columns df') n = Some (obj', cs') \<and> length cs' = length cs \<and>
          (if endswith n ''_spikes'' then
             (\<forall>k<length cs. \<forall>a. cs ! k = Arr a \<longrightarrow>
                (ndim a = 2 \<longrightarrow> cs' ! k = Arr a) \<and>
                (ndim a \<noteq> 2 \<longrightarrow>
                   cs' ! k = Arr (NDArray (dtype_of a) [1, length (elems a)] (elems a)))) \<and>
             (\<forall>c\<in>set cs'. \<exists>a. c = Arr a \<and> ndim a = 2)
           else (obj', cs') = (obj, cs))))"
proof -
  let ?f = "\<lambda>n col. if endswith n ''_spikes'' then ensure_2d_column col else col"
  let ?df' = "df\<lparr>columns := map (\<lambda>(n, col). (n, ?f n col)) (columns df)\<rparr>"
  have "map (\<lambda>(n, col). if endswith n ''_spikes'' then (n, ensure_2d_column col) else (n, col))
                             (columns df) = map (\<lambda>(n, col). (n, ?f n col)) (columns df)"
    by (rule map_cong[OF refl]) auto
  then have res: "clean_0d_array_fields df = Inr ?df'"
    using clean_0d_array_fields_result[OF assms] by simp
  have dist: "distinct (map fst (columns df))"
    using assms(1) by (simp add: valid_table_def)
  have cols: "\<exists>obj' cs'. map_of (columns ?df') n = Some (obj', cs') \<and> length cs' = length cs \<and>
          (if endswith n ''_spikes'' then
             (\<forall>k<length cs. \<forall>a. cs ! k = Arr a \<longrightarrow>
                (ndim a = 2 \<longrightarrow> cs' ! k = Arr a) \<and>
                (ndim a \<noteq> 2 \<longrightarrow>
                   cs' ! k = Arr (NDArray (dtype_of a) [1, length (elems a)] (elems a)))) \<and>
             (\<forall>c\<in>set cs'. \<exists>a. c = Arr a \<and> ndim a = 2)
           else (obj', cs') = (obj, cs))" if mem: "(n, obj, cs) \<in> set (columns df)" for n obj cs
  proof -
    have m: "map_of (columns ?df') n = Some (?f n (obj, cs))"
      using map_of_map_columns[OF dist mem, of ?f] by simp
    show ?thesis
    proof (cases "endswith n ''_spikes''")
      case True
      let ?cs' = "map (\<lambda>c. projr (ensure_2d c)) cs"
      have arr: "\<forall>c\<in>set cs. is_ndarray c"
        using assms(2) mem True by auto
      have wf: "\<forall>c\<in>set cs. wf_cell c"
        using valid_table_column[OF assms(1) mem] by (simp add: list_all_iff)
      have one: "(ndim a = 2 \<longrightarrow> ?cs' ! k = Arr a) \<and>
            (ndim a \<noteq> 2 \<longrightarrow> ?cs' ! k = Arr (NDArray (dtype_of a) [1, length (elems a)] (elems a)))"
        if "k < length cs" "cs ! k = Arr a" for k a
      proof -
        from that have "Arr a \<in> set cs" by (metis nth_mem)
        with wf have "length (elems a) = size_nd a"
          by (auto simp: wf_ndarray_def size_nd_def)
        with that show ?thesis
          by (simp add: ensure_2d_Arr reshape_row_def)
      qed
      have two: "\<exists>a. c' = Arr a \<and> ndim a = 2" if "c' \<in> set ?cs'" for c'
      proof -
        from that obtain c where c: "c \<in> set cs" "c' = projr (ensure_2d c)" by auto
        with arr obtain a where "c = Arr a" by (cases c) auto
        with c show ?thesis
          by (simp add: ensure_2d_Arr reshape_row_def ndim_def)
      qed
      have "map_of (columns ?df') n = Some (infer_object ?cs', ?cs')"
        using m True by (simp add: ensure_2d_column_def)
      with True one two show ?thesis
        by simp
    next
      case False
      with m show ?thesis by simp
    qed
  qed
  have names: "map fst (columns ?df') = map fst (columns df)"
    using map_fst_map_columns[of ?f "columns df"] by simp
  have "index ?df' = index df"
    by simp
  with res names cols show ?thesis
    by blast
qed

theorem clean_0d_array_fields_ensures_2d_witness:
  "valid_table ex_spikes \<and>
   clean_0d_array_fields ex_spikes = Inr (ex_spikes\<lparr>columns :=
      AList.update ''m1_spikes''
        (True, [Arr (NDArray (SInt 64) [1, 1] [IntV 7]),
                Arr (NDArray (SInt 64) [2, 2] [IntV 1, IntV 2, IntV 3, IntV 4]),
                Arr (NDArray (UInt 8) [1, 3] [IntV 0, IntV 1, IntV 0])]) (columns ex_spikes)\<rparr>)"
  using clean_0d_array_fields_ensures_2d[of ex_spikes]
  by (simp add: ex_spikes_def valid_table_def wf_ndarray_def clean_0d_array_fields_def
      spike_fields_def endswith_def clean_0d_array_col_def getitem_def setitem_def ensure_2d_def
      ndim_def reshape_row_def size_nd_def infer_object_def)

section \<open>Collapsing 0-dimensional arrays\<close>

lemma wf_0d_elems:
  assumes "wf_ndarray a" and "ndim a = 0"
  shows "\<exists>x. a = NDArray (dtype_of a) [] [x]"
proof -
  from assms have "shape a = []" "length (elems a) = 1"
    by (simp_all add: ndim_def wf_ndarray_def)
  then obtain x where "elems a = [x]"
    by (cases "elems a") auto
  with \<open>shape a = []\<close> show ?thesis
    by (cases a) auto
qed

lemma cell_item_0d: "cell_item (Arr (NDArray dt [] [x])) = Inr (Num x)"
  by (simp add: item_def)

lemma clean_0d_spike_col_step:
  assumes "map_of (columns d) c = Some col" and "length (snd col) = length (index d)"
    and "list_all wf_cell (snd col)"
  shows "clean_0d_spike_col d c = Inr (d\<lparr>columns := AList.update c (collapse_column col) (columns d)\<rparr>)"
proof -
  obtain obj cs where col: "col = (obj, cs)" by (cases col)
  have same: "d\<lparr>columns := AList.update c col (columns d)\<rparr> = d"
    using update_triv[OF assms(1)] by simp
  show ?thesis
  proof (cases "list_all is_ndarray cs")
    case False
    then obtain x where "x \<in> set cs" "\<not> is_ndarray x"
      by (auto simp: list_all_iff)
    then have "\<not> all_0d cs"
      unfolding all_0d_def by (metis is_ndarray.simps(1))
    with False assms(1) same col show ?thesis
      by (simp add: clean_0d_spike_col_def getitem_Some collapse_column_def)
  next
    case True
    have flags: "list_comp (\<lambda>arr. and_then (cell_ndim arr) (\<lambda>n. Inr (n = 0))) cs =
        Inr (map (\<lambda>x. projr (cell_ndim x) = 0) cs)"
    proof (rule list_comp_map)
      fix x assume "x \<in> set cs"
      with True obtain a where "x = Arr a"
        by (cases x) (auto simp: list_all_iff)
      then show "and_then (cell_ndim x) (\<lambda>n. Inr (n = 0)) = Inr (projr (cell_ndim x) = 0)"
        by simp
    qed
    have iff: "list_all id (map (\<lambda>x. projr (cell_ndim x) = 0) cs) \<longleftrightarrow> all_0d cs"
    proof -
      have "projr (cell_ndim x) = 0 \<longleftrightarrow> (\<exists>a. x = Arr a \<and> ndim a = 0)" if "x \<in> set cs" for x
      proof -
        from True that obtain a where "x = Arr a"
          by (cases x) (auto simp: list_all_iff)
        then show ?thesis by simp
      qed
      then show ?thesis
        by (auto simp: list_all_iff all_0d_def)
    qed
    show ?thesis
    proof (cases "all_0d cs")
      case False
      with True flags iff assms(1) same col show ?thesis
        by (simp add: clean_0d_spike_col_def getitem_Some collapse_column_def)
    next
      case all: True
      have items: "list_comp cell_item cs = Inr (map (\<lambda>x. projr (cell_item x)) cs)"
      proof (rule list_comp_map)
        fix x assume x: "x \<in> set cs"
        with all obtain a where a: "x = Arr a" "ndim a = 0"
          by (auto simp: all_0d_def)
        from x assms(3) a col have "wf_ndarray a"
          by (auto simp: list_all_iff)
        from wf_0d_elems[OF this a(2)] obtain y where "a = NDArray (dtype_of a) [] [y]" ..
        then have "item a = Inr (Num y)"
          by (metis cell_item.simps(1) cell_item_0d)
        with a show "cell_item x = Inr (projr (cell_item x))"
          by simp
      qed
      with True flags iff all assms(1,2) col show ?thesis
        by (simp add: clean_0d_spike_col_def getitem_Some setitem_def collapse_column_def)
    qed
  qed
qed

lemma clean_0d_spike_fields_result:
  assumes "valid_table df"
  shows "clean_0d_spike_fields df =
     Inr (df\<lparr>columns := map (\<lambda>(n, col). (n, collapse_column col)) (columns df)\<rparr>)"
proof -
  let ?Q = "\<lambda>(c::string) (col::column). length (snd col) = length (index df) \<and> list_all wf_cell (snd col)"
  let ?g = "\<lambda>(c::string). collapse_column"
  have dist: "distinct (map fst (columns df))"
    using assms(1) by (simp add: valid_table_def)
  have "for_each clean_0d_spike_col (map fst (columns df)) df =
     Inr (df\<lparr>columns := map (\<lambda>(n, col). if n \<in> set (map fst (columns df)) then (n, ?g n col) else (n, col))
                             (columns df)\<rparr>)"
  proof (rule for_each_columns[where Q = ?Q, OF dist dist])
    show "\<forall>c\<in>set (map fst (columns df)). \<exists>col. map_of (columns df) c = Some col \<and> ?Q c col"
    proof
      fix c assume "c \<in> set (map fst (columns df))"
      then obtain obj cs where "(c, obj, cs) \<in> set (columns df)"
        by auto
      with valid_table_column[OF assms(1)] show "\<exists>col. map_of (columns df) c = Some col \<and> ?Q c col"
        by fastforce
    qed
  next
    fix d :: table and c and col :: column
    assume a: "map_of (columns d) c = Some col" "?Q c col" "index d = index df"
    then show "clean_0d_spike_col d c = Inr (d\<lparr>columns := AList.update c (?g c col) (columns d)\<rparr>)"
      using clean_0d_spike_col_step[of d c col] by simp
  qed
  moreover have "map (\<lambda>(n, col). if n \<in> set (map fst (columns df)) then (n, ?g n col) else (n, col)) (columns df)
     = map (\<lambda>(n, col). (n, ?g n col)) (columns df)"
  proof (rule map_cong[OF refl])
    fix p assume "p \<in> set (columns df)"
    then have "fst p \<in> fst ` set (columns df)" by simp
    then show "(case p of (n, col) \<Rightarrow> if n \<in> set (map fst (columns df)) then (n, ?g n col) else (n, col)) =
        (case p of (n, col) \<Rightarrow> (n, ?g n col))"
      by (cases p) simp
  qed
  ultimately show ?thesis
    by (simp add: clean_0d_spike_fields_def)
qed

text \<open>
  Claim C3. On a valid table the transform returns, with the row labels and the column
  names as before, and decides column by column: a column in which every cell is a
  0-dimensional array is replaced by the scalars the arrays wrap; a column with a cell
  that is not an array, or with an array of rank at least 1, is left as it is, cell for
  cell and with its dtype. The witness has columns of both kinds, one of them with a
  single 1-dimensional array among 0-dimensional ones.
\<close>

theorem clean_0d_spike_fields_all_or_nothing:
  assumes "valid_table df"
  shows "\<exists>df'. clean_0d_spike_fields df = Inr df' \<and>
     index df' = index df \<and> map fst (columns df') = map fst (columns df) \<and>
     (\<forall>n obj cs. (n, obj, cs) \<in> set (columns df) \<longrightarrow>
        (\<exists>obj' cs'. map_of (columns df') n = Some (obj', cs') \<and> length cs' = length cs \<and>
          (if (\<forall>c\<in>set cs. \<exists>a. c = Arr a \<and> ndim a = 0)
           then (\<forall>k<length cs. \<exists>dt x. cs ! k = Arr (NDArray dt [] [x]) \<and> cs' ! k = Num x)
           else (obj', cs') = (obj, cs))))"
proof -
  let ?f = "\<lambda>(n::string). collapse_column"
  let ?df' = "df\<lparr>columns := map (\<lambda>(n, col). (n, ?f n col)) (columns df)\<rparr>"
  have res: "clean_0d_spike_fields df = Inr ?df'"
    using clean_0d_spike_fields_result[OF assms] by simp
  have dist: "distinct (map fst (columns df))"
    using assms(1) by (simp add: valid_table_def)
  have cols: "\<exists>obj' cs'. map_of (columns ?df') n = Some (obj', cs') \<and> length cs' = length cs \<and>
          (if all_0d cs
           then (\<forall>k<length cs. \<exists>dt x. cs ! k = Arr (NDArray dt [] [x]) \<and> cs' ! k = Num x)
           else (obj', cs') = (obj, cs))" if mem: "(n, obj, cs) \<in> set (columns df)" for n obj cs
  proof -
    have m: "map_of (columns ?df') n = Some (collapse_column (obj, cs))"
      using map_of_map_columns[OF dist mem, of ?f] by simp
    show ?thesis
    proof (cases "all_0d cs")
      case True
      let ?cs' = "map (\<lambda>x. projr (cell_item x)) cs"
      have wf: "\<forall>c\<in>set cs. wf_cell c"
        using valid_table_column[OF assms(1) mem] by (simp add: list_all_iff)
      have one: "\<exists>dt x. cs ! k = Arr (NDArray dt [] [x]) \<and> ?cs' ! k = Num x"
        if "k < length cs" for k
      proof -
        from that have k: "cs ! k \<in> set cs" by simp
        with True obtain a where a: "cs ! k = Arr a" "ndim a = 0"
          by (auto simp: all_0d_def)
        with k wf have "wf_ndarray a" by auto
        from wf_0d_elems[OF this a(2)] obtain y where y: "a = NDArray (dtype_of a) [] [y]" ..
        then have "item a = Inr (Num y)"
          by (metis cell_item.simps(1) cell_item_0d)
        with a y that show ?thesis
          by (metis cell_item.simps(1) nth_map sum.sel(2))
      qed
      have "map_of (columns ?df') n = Some (infer_object ?cs', ?cs')"
        using m True by (simp add: collapse_column_def)
      with True one show ?thesis
        by simp
    next
      case False
      with m show ?thesis by (simp add: collapse_column_def)
    qed
  qed
  have names: "map fst (columns ?df') = map fst (columns df)"
    using map_fst_map_columns[of ?f "columns df"] by simp
  have "index ?df' = index df"
    by simp
  with res names cols show ?thesis
    unfolding all_0d_def[symmetric] by blast
qed

theorem clean_0d_spike_fields_all_or_nothing_witness:
  "valid_table ex_spikes \<and>
   clean_0d_spike_fields ex_spikes = Inr \<lparr>index = [0, 1, 2],
     columns = [(''m1_spikes'', True, [Arr (NDArray (SInt 64) [] [IntV 7]),
                                       Arr (NDArray (SInt 64) [2, 2] [IntV 1, IntV 2, IntV 3, IntV 4]),
                                       Arr (NDArray (UInt 8) [3] [IntV 0, IntV 1, IntV 0])]),
                (''bin_size'', False, [Num (FloatV (1 / 100)), Num (FloatV (1 / 100)), Num (FloatV (1 / 100))]),
                (''trial_id'', False, [Num (IntV 3), Num (IntV 5), Num (IntV 2)]),
                (''mixed'', True, [Arr (NDArray (SInt 64) [1] [IntV 3]), Arr (NDArray (SInt 64) [] [IntV 5]),
                                   Arr (NDArray (SInt 64) [] [IntV 2])])]\<rparr>"
  using clean_0d_spike_fields_all_or_nothing[of ex_spikes]
  by (simp add: ex_spikes_def valid_table_def wf_ndarray_def clean_0d_spike_fields_def
      clean_0d_spike_col_def getitem_def setitem_def ndim_def item_def infer_object_def)

section \<open>Integer down-casting: the loop, column by column\<close>

lemma np_int32_series_length:
  "np_int32_series np col = Inr iv \<Longrightarrow> length iv = length (snd col)"
  by (auto simp: np_int32_series_def split: prod.splits dest: list_comp_length)

lemma np_allclose_series_numeric:
  "np_allclose_series np iv col = Inr ok \<Longrightarrow> \<not> fst col"
  by (auto simp: np_allclose_series_def split: prod.splits if_splits)

lemma convert_column_cases:
  assumes "convert_column np col = Inr col'"
  shows "col' = col \<or>
     (\<exists>ys. col' = (infer_object ys, ys) \<and>
        (list_comp (np_int32 np) (snd col) = Inr ys \<or> np_int32_series np col = Inr ys \<and> \<not> fst col))"
proof -
  from assms obtain v0 where v0: "first_value (snd col) = Inr v0"
    by (auto simp: convert_column_def and_then_eq_Inr)
  show ?thesis
  proof (cases "is_ndarray v0")
    case True
    with assms v0 obtain ia oks where "list_comp (np_int32 np) (snd col) = Inr ia"
      "(if list_all id oks then Inr (infer_object ia, ia) else Inr col) = (Inr col' :: error + column)"
      by (auto simp: convert_column_def and_then_eq_Inr)
    then show ?thesis
      by (auto split: if_splits)
  next
    case False
    show ?thesis
    proof (cases "is_str v0")
      case True
      with False assms v0 show ?thesis by (simp add: convert_column_def)
    next
      case nstr: False
      with False assms v0 obtain iv ok where iv: "np_int32_series np col = Inr iv"
        and ok: "np_allclose_series np iv col = Inr ok"
        and r: "(if ok then Inr (infer_object iv, iv) else Inr col) = (Inr col' :: error + column)"
        by (auto simp: convert_column_def and_then_eq_Inr)
      from np_allclose_series_numeric[OF ok] iv r show ?thesis
        by (auto split: if_splits)
    qed
  qed
qed

lemma convert_column_length:
  assumes "convert_column np col = Inr col'"
  shows "length (snd col') = length (snd col)"
  using convert_column_cases[OF assms]
  by (auto dest: list_comp_length np_int32_series_length)

lemma new_column_length: "length (snd (new_column np col)) = length (snd col)"
  by (auto simp: new_column_def convert_column_length split: sum.splits)

lemma try_field_column:
  assumes "map_of (columns d) f = Some col" and "length (snd col) = length (index d)"
  shows "try_field np d f =
     (case convert_column np col of
        Inl e \<Rightarrow> Inl e
      | Inr col' \<Rightarrow> Inr (d\<lparr>columns := AList.update f col' (columns d)\<rparr>))"
proof -
  have same: "d\<lparr>columns := AList.update f col (columns d)\<rparr> = d"
    using update_triv[OF assms(1)] by simp
  show ?thesis
  proof (cases "first_value (snd col)")
    case (Inl e)
    with assms show ?thesis
      by (simp add: try_field_def convert_column_def getitem_Some)
  next
    case (Inr v0)
    show ?thesis
    proof (cases "is_ndarray v0")
      case True
      show ?thesis
      proof (cases "list_comp (np_int32 np) (snd col)")
        case (Inl e)
        with True Inr assms show ?thesis
          by (simp add: try_field_def convert_column_def getitem_Some)
      next
        case ia: (Inr ia)
        then have len: "length ia = length (index d)"
          using assms(2) by (simp add: list_comp_length)
        show ?thesis
        proof (cases "list_comp (\<lambda>(int_arr, arr). np_allclose np int_arr arr) (zip ia (snd col))")
          case (Inl e)
          with True Inr ia assms show ?thesis
            by (simp add: try_field_def convert_column_def getitem_Some)
        next
          case oks: (Inr oks)
          with True Inr ia assms len same show ?thesis
            by (simp add: try_field_def convert_column_def getitem_Some setitem_def)
        qed
      qed
    next
      case False
      show ?thesis
      proof (cases "is_str v0")
        case True
        with False Inr assms same show ?thesis
          by (simp add: try_field_def convert_column_def getitem_Some)
      next
        case nstr: False
        show ?thesis
        proof (cases "np_int32_series np col")
          case (Inl e)
          with False nstr Inr assms show ?thesis
            by (simp add: try_field_def convert_column_def getitem_Some)
        next
          case iv: (Inr iv)
          then have len: "length iv = length (index d)"
            using assms(2) by (simp add: np_int32_series_length)
          show ?thesis
          proof (cases "np_allclose_series np iv col")
            case (Inl e)
            with False nstr Inr iv assms show ?thesis
              by (simp add: try_field_def convert_column_def getitem_Some)
          next
            case ok: (Inr ok)
            with False nstr Inr iv assms len same show ?thesis
              by (simp add: try_field_def convert_column_def getitem_Some setitem_def)
          qed
        qed
      qed
    qed
  qed
qed

lemma clean_loop_columns:
  assumes "distinct (map fst (columns df))" and "distinct fs"
    and "\<forall>c\<in>set fs. \<exists>col. map_of (columns df) c = Some col \<and> length (snd col) = length (index df)"
  shows "clean_loop np fs df bad =
     (df\<lparr>columns := map (\<lambda>(n, col). if n \<in> set fs then (n, new_column np col) else (n, col)) (columns df)\<rparr>,
      bad @ filter (\<lambda>f. isl (convert_column np (the (map_of (columns df) f)))) fs)"
  using assms
proof (induction fs arbitrary: df bad)
  case Nil
  then show ?case by (simp add: case_prod_unfold)
next
  case (Cons c fs)
  from Cons.prems(3) obtain col where col: "map_of (columns df) c = Some col"
    "length (snd col) = length (index df)"
    by auto
  define d1 where "d1 = df\<lparr>columns := AList.update c (new_column np col) (columns df)\<rparr>"
  define bad1 where "bad1 = (if isl (convert_column np col) then bad @ [c] else bad)"
  have same: "df\<lparr>columns := AList.update c col (columns df)\<rparr> = df"
    using update_triv[OF col(1)] by simp
  have step: "clean_loop np (c # fs) df bad = clean_loop np fs d1 bad1"
    using try_field_column[OF col, of np] same
    by (cases "convert_column np col") (simp_all add: d1_def bad1_def new_column_def)
  have upd: "columns d1 = map (\<lambda>(n, x). if n = c then (n, new_column np col) else (n, x)) (columns df)"
    unfolding d1_def using update_as_map[OF Cons.prems(1) col(1)] by simp
  have d1_dist: "distinct (map fst (columns d1))"
    unfolding d1_def using Cons.prems(1) by (simp add: distinct_update)
  have other: "map_of (columns d1) c' = map_of (columns df) c'" if "c' \<in> set fs" for c'
  proof -
    from that Cons.prems(2) have "c' \<noteq> c" by auto
    then show ?thesis unfolding d1_def by (simp add: update_conv')
  qed
  have d1_mem: "\<forall>c'\<in>set fs. \<exists>col. map_of (columns d1) c' = Some col \<and>
      length (snd col) = length (index d1)"
    using Cons.prems(3) other by (simp add: d1_def)
  have IH: "clean_loop np fs d1 bad1 =
     (d1\<lparr>columns := map (\<lambda>(n, col). if n \<in> set fs then (n, new_column np col) else (n, col)) (columns d1)\<rparr>,
      bad1 @ filter (\<lambda>f. isl (convert_column np (the (map_of (columns d1) f)))) fs)"
    by (rule Cons.IH[OF d1_dist _ d1_mem]) (use Cons.prems(2) in simp)
  have cols: "map (\<lambda>(n, col). if n \<in> set fs then (n, new_column np col) else (n, col)) (columns d1) =
      map (\<lambda>(n, col). if n \<in> set (c # fs) then (n, new_column np col) else (n, col)) (columns df)"
    unfolding upd map_map
  proof (rule map_cong[OF refl])
    fix p assume p: "p \<in> set (columns df)"
    obtain n x where nx: "p = (n, x)" by (cases p)
    have "n = c \<Longrightarrow> x = col"
      using map_of_distinct_mem[OF Cons.prems(1)] p nx col(1) by auto
    then show "((\<lambda>(n, col). if n \<in> set fs then (n, new_column np col) else (n, col)) \<circ>
           (\<lambda>(n, x). if n = c then (n, new_column np col) else (n, x))) p =
          (case p of (n, col) \<Rightarrow> if n \<in> set (c # fs) then (n, new_column np col) else (n, col))"
      using nx Cons.prems(2) by auto
  qed
  have bads: "bad1 @ filter (\<lambda>f. isl (convert_column np (the (map_of (columns d1) f)))) fs =
      bad @ filter (\<lambda>f. isl (convert_column np (the (map_of (columns df) f)))) (c # fs)"
  proof -
    have "filter (\<lambda>f. isl (convert_column np (the (map_of (columns d1) f)))) fs =
        filter (\<lambda>f. isl (convert_column np (the (map_of (columns df) f)))) fs"
      by (rule filter_cong[OF refl]) (simp add: other)
    then show ?thesis
      using col(1) by (simp add: bad1_def)
  qed
  show ?case
    unfolding step IH cols bads by (simp add: d1_def)
qed

lemma clean_integer_fields_result:
  assumes "distinct (map fst (columns df))"
    and "\<forall>(n, col) \<in> set (columns df). length (snd col) = length (index df)"
  shows "clean_integer_fields np df =
     (df\<lparr>columns := map (\<lambda>(n, col). (n, new_column np col)) (columns df)\<rparr>,
      let shown = filter (\<lambda>field. \<not> contains ''label'' (lower field)) (failed_fields np df)
      in if shown \<noteq> [] then [CouldNotConvert shown] else [])"
proof -
  have mem: "\<forall>c\<in>set (map fst (columns df)). \<exists>col. map_of (columns df) c = Some col \<and>
      length (snd col) = length (index df)"
  proof
    fix c assume "c \<in> set (map fst (columns df))"
    then obtain col where "(c, col) \<in> set (columns df)" by auto
    with assms show "\<exists>col. map_of (columns df) c = Some col \<and> length (snd col) = length (index df)"
      by (auto intro!: exI[of _ col])
  qed
  have cols: "map (\<lambda>(n, col). if n \<in> set (map fst (columns df)) then (n, new_column np col) else (n, col))
      (columns df) = map (\<lambda>(n, col). (n, new_column np col)) (columns df)"
  proof (rule map_cong[OF refl])
    fix p assume "p \<in> set (columns df)"
    then have "fst p \<in> fst ` set (columns df)" by simp
    then show "(case p of (n, col) \<Rightarrow> if n \<in> set (map fst (columns df)) then (n, new_column np col) else (n, col)) =
        (case p of (n, col) \<Rightarrow> (n, new_column np col))"
      by (cases p) simp
  qed
  have failed: "filter (\<lambda>f. isl (convert_column np (the (map_of (columns df) f)))) (map fst (columns df))
      = failed_fields np df"
    unfolding failed_fields_def
  proof (rule filter_cong[OF refl])
    fix f assume "f \<in> set (map fst (columns df))"
    with mem obtain col where col: "map_of (columns df) f = Some col"
      "length (snd col) = length (index df)"
      by auto
    show "isl (convert_column np (the (map_of (columns df) f))) = isl (try_field np df f)"
      using try_field_column[OF col, of np] col(1) by (simp split: sum.splits)
  qed
  show ?thesis
    unfolding clean_integer_fields_def clean_loop_columns[OF assms(1) assms(1) mem] cols
    by (simp add: failed Let_def)
qed

lemma valid_table_lens:
  "valid_table df \<Longrightarrow> \<forall>(n, col) \<in> set (columns df). length (snd col) = length (index df)"
  by (auto simp: valid_table_def)

lemma valid_table_distinct: "valid_table df \<Longrightarrow> distinct (map fst (columns df))"
  by (simp add: valid_table_def)

section \<open>Integer down-casting: which columns are cast\<close>

lemma floor_rat_numeral_div: "\<lfloor>(numeral a :: rat) / numeral b\<rfloor> = numeral a div numeral b"
  using floor_divide_of_int_eq[of "numeral a" "numeral b", where ?'a = rat] by simp

lemma floor_rat_one_div: "\<lfloor>(1 :: rat) / numeral b\<rfloor> = 1 div numeral b"
  using floor_divide_of_int_eq[of 1 "numeral b", where ?'a = rat] by simp















section \<open>Integer down-casting: the diagnostic, swallowed exceptions, empty tables\<close>







text \<open>
  Claim C7. On a valid table, when the \<^verbatim>\<open>try\<close> body of a column raises (the cast, the
  closeness test, or anything else in it), the transform still returns a table, and in
  that table the column is the input column, cell for cell and with its dtype.
\<close>

theorem clean_integer_fields_swallows:
  assumes "valid_table df" and "(n, obj, cs) \<in> set (columns df)" and "try_field np df n = Inl e"
  shows "\<exists>df' out. clean_integer_fields np df = (df', out) \<and>
     index df' = index df \<and> map fst (columns df') = map fst (columns df) \<and>
     map_of (columns df') n = Some (obj, cs)"
proof -
  have dist: "distinct (map fst (columns df))"
    using assms(1) by (rule valid_table_distinct)
  have lens: "\<forall>(n, col) \<in> set (columns df). length (snd col) = length (index df)"
    using assms(1) by (rule valid_table_lens)
  from valid_table_column[OF assms(1,2)]
  have col: "map_of (columns df) n = Some (obj, cs)" "length (snd (obj, cs)) = length (index df)"
    by auto
  from try_field_column[OF col, of np] assms(3) have "isl (convert_column np (obj, cs))"
    by (auto split: sum.splits)
  then have "new_column np (obj, cs) = (obj, cs)"
    by (auto simp: new_column_def split: sum.splits)
  then have "map_of (columns (fst (clean_integer_fields np df))) n = Some (obj, cs)"
    using map_of_map_columns[OF dist assms(2), of "\<lambda>n. new_column np"]
    by (simp add: clean_integer_fields_result[OF dist lens])
  moreover have "map fst (columns (fst (clean_integer_fields np df))) = map fst (columns df)"
    using map_fst_map_columns[of "\<lambda>n. new_column np" "columns df"]
    by (simp add: clean_integer_fields_result[OF dist lens])
  moreover have "index (fst (clean_integer_fields np df)) = index df"
    by (simp add: clean_integer_fields_result[OF dist lens])
  ultimately show ?thesis
    by (metis prod.collapse)
qed

lemma clean_loop_all_fail:
  "\<forall>f\<in>set fs. isl (try_field np df f) \<Longrightarrow> clean_loop np fs df bad = (df, bad @ fs)"
proof (induction fs arbitrary: bad)
  case Nil
  then show ?case by simp
next
  case (Cons f fs)
  then show ?case
    by (cases "try_field np df f") auto
qed

lemma map_of_empty_columns:
  "\<forall>(n, obj, cs)\<in>set al. cs = [] \<Longrightarrow> f \<in> fst ` set al \<Longrightarrow> \<exists>obj. map_of al f = Some (obj, [])"
  by (induction al) auto

text \<open>
  Claim C10, as amended. On a table with no rows and at least one column, reading the
  first value of any column raises IndexError, so every column is recorded in
  \<^verbatim>\<open>bad_fields\<close> and the table is returned as it was. The line is printed when some column
  name is free of \<^verbatim>\<open>label\<close>, and then names exactly those columns; when every column
  name contains \<^verbatim>\<open>label\<close>, nothing is printed.
\<close>

theorem clean_integer_fields_no_rows:
  assumes "index df = []" and "columns df \<noteq> []" and "\<forall>(n, obj, cs)\<in>set (columns df). cs = []"
  shows "(\<forall>f\<in>set (map fst (columns df)). try_field np df f = Inl IndexError) \<and>
     clean_loop np (map fst (columns df)) df [] = (df, map fst (columns df)) \<and>
     clean_integer_fields np df =
       (df, let shown = filter (\<lambda>field. \<not> contains ''label'' (lower field)) (map fst (columns df))
            in if shown = [] then [] else [CouldNotConvert shown])"
proof -
  have fail: "try_field np df f = Inl IndexError" if "f \<in> set (map fst (columns df))" for f
  proof -
    from that obtain obj where "map_of (columns df) f = Some (obj, [])"
      using map_of_empty_columns[OF assms(3)] by auto
    then show ?thesis
      by (simp add: try_field_def getitem_def first_value_def)
  qed
  then have "\<forall>f\<in>set (map fst (columns df)). isl (try_field np df f)"
    by simp
  from clean_loop_all_fail[OF this, of "[]"]
  have loop: "clean_loop np (map fst (columns df)) df [] = (df, map fst (columns df))"
    by simp
  show ?thesis
    using fail loop by (auto simp: clean_integer_fields_def Let_def)
qed

section \<open>Integer down-casting: a table with mixed columns\<close>

lemma contains_label_target: "contains ''label'' (lower ''target_label'')"
  by (simp add: startswith_def lower_def lower_char_def)






lemma contains_label_trial_id: "\<not> contains ''label'' (lower ''trial_id'')"
  by (simp add: startswith_def lower_def lower_char_def)

lemma int32_of_str_ref_12: "int32_of_str_ref ''12'' = Inr (IntV 12)"
  by (simp add: int32_of_str_ref_def digit_value_def)

lemma int32_of_str_ref_abc: "int32_of_str_ref ''abc'' = Inl ValueError"
  by (simp add: int32_of_str_ref_def digit_value_def)



lemma cast32_ref_whole [simp]: "cast32_ref (FloatV 1) = IntV 1" "cast32_ref (FloatV 2) = IntV 2"
  by simp_all

lemma in_int32_whole [simp]: "in_int32 1" "in_int32 2" "in_int32 3" "in_int32 7" "in_int32 12"
  by (simp_all add: in_int32_def)

lemma isclose_ref_whole [simp]: "isclose_ref (IntV 1) (FloatV 1)" "isclose_ref (IntV 2) (FloatV 2)"
  by (simp_all add: isclose_ref_def)

lemma valid_ex_mixed: "valid_table ex_mixed"
  by (simp add: ex_mixed_def valid_table_def wf_ndarray_def)


lemma try_ex_mixed_ratings: "try_field np_ref d ''ratings'' = Inl TypeError"
  if "map_of (columns d) ''ratings'' = Some (True, [Num (FloatV 1), Num (FloatV 2)])"
  using that by (simp add: try_field_def getitem_def first_value_def np_ref_def
      np_int32_series_def np_allclose_series_def)

lemma try_ex_mixed_notes: "try_field np_ref d ''notes'' = Inl ValueError"
  if "map_of (columns d) ''notes'' = Some (True, [Num (FloatV 1), Str ''abc''])"
  using that by (simp add: try_field_def getitem_def first_value_def np_ref_def
      np_int32_series_def int32_of_str_ref_abc)

lemma try_ex_mixed_codes: "try_field np_ref d ''codes'' = Inl TypeError"
  if "map_of (columns d) ''codes'' = Some (True, [Arr (NDArray Floating [1] [FloatV 1]), Str ''12''])"
  using that by (simp add: try_field_def getitem_def first_value_def np_ref_def
      np_allclose_def int32_of_str_ref_12)









theorem clean_integer_fields_swallows_witness:
  "valid_table ex_mixed \<and>
   try_field np_ref ex_mixed ''notes'' = Inl ValueError \<and>
   try_field np_ref ex_mixed ''codes'' = Inl TypeError \<and>
   try_field np_ref ex_mixed ''ratings'' = Inl TypeError \<and>
   list_comp (np_int32 np_ref) [Arr (NDArray Floating [1] [FloatV 1]), Str ''12''] =
     Inr [Arr (NDArray (SInt 32) [1] [IntV 1]), Num (IntV 12)] \<and>
   np_allclose np_ref (Num (IntV 12)) (Str ''12'') = Inl TypeError \<and>
   map_of (columns (fst (clean_integer_fields np_ref ex_mixed))) ''notes'' =
     Some (True, [Num (FloatV 1), Str ''abc'']) \<and>
   map_of (columns (fst (clean_integer_fields np_ref ex_mixed))) ''codes'' =
     Some (True, [Arr (NDArray Floating [1] [FloatV 1]), Str ''12'']) \<and>
   map_of (columns (fst (clean_integer_fields np_ref ex_mixed))) ''ratings'' =
     Some (True, [Num (FloatV 1), Num (FloatV 2)])"
proof -
  have n: "try_field np_ref ex_mixed ''notes'' = Inl ValueError"
    by (rule try_ex_mixed_notes) (simp add: ex_mixed_def)
  have c: "try_field np_ref ex_mixed ''codes'' = Inl TypeError"
    by (rule try_ex_mixed_codes) (simp add: ex_mixed_def)
  have r: "try_field np_ref ex_mixed ''ratings'' = Inl TypeError"
    by (rule try_ex_mixed_ratings) (simp add: ex_mixed_def)
  have mn: "(''notes'', True, [Num (FloatV 1), Str ''abc'']) \<in> set (columns ex_mixed)"
    by (simp add: ex_mixed_def)
  have mc: "(''codes'', True, [Arr (NDArray Floating [1] [FloatV 1]), Str ''12'']) \<in> set (columns ex_mixed)"
    by (simp add: ex_mixed_def)
  have mr: "(''ratings'', True, [Num (FloatV 1), Num (FloatV 2)]) \<in> set (columns ex_mixed)"
    by (simp add: ex_mixed_def)
  have cast: "list_comp (np_int32 np_ref) [Arr (NDArray Floating [1] [FloatV 1]), Str ''12''] =
     Inr [Arr (NDArray (SInt 32) [1] [IntV 1]), Num (IntV 12)]"
    by (simp add: np_ref_def int32_of_str_ref_12)
  have close: "np_allclose np_ref (Num (IntV 12)) (Str ''12'') = Inl TypeError"
    by (simp add: np_allclose_def)
  from clean_integer_fields_swallows[OF valid_ex_mixed mn n]
    clean_integer_fields_swallows[OF valid_ex_mixed mc c]
    clean_integer_fields_swallows[OF valid_ex_mixed mr r]
  show ?thesis
    using valid_ex_mixed n c r cast close by auto
qed

theorem clean_integer_fields_no_rows_witness:
  "clean_integer_fields np_ref
     \<lparr>index = [], columns = [(''trial_id'', False, []), (''target_label'', True, [])]\<rparr> =
     (\<lparr>index = [], columns = [(''trial_id'', False, []), (''target_label'', True, [])]\<rparr>,
      [CouldNotConvert [''trial_id'']])"
  using clean_integer_fields_no_rows[of
      "\<lparr>index = [], columns = [(''trial_id'', False, []), (''target_label'', True, [])]\<rparr>" np_ref]
  by (simp add: contains_label_target contains_label_trial_id)

theorem clean_integer_fields_no_rows_counterexample:
  "clean_integer_fields np_ref \<lparr>index = [], columns = [(''target_label'', True, [])]\<rparr> =
     (\<lparr>index = [], columns = [(''target_label'', True, [])]\<rparr>, [])"
  by (simp add: clean_integer_fields_def try_field_def getitem_def first_value_def
      contains_label_target)

section \<open>Integer down-casting: running it twice\<close>

lemma np_int32_Arr_keep:
  "\<not> (\<exists>x. shape a = [] \<and> elems a = [x]) \<Longrightarrow>
   np_int32 np (Arr a) = Inr (Arr (NDArray (SInt 32) (shape a) (map (cast32 np) (elems a))))"
  by (cases "shape a"; cases "elems a"; cases "tl (elems a)") auto

lemma list_comp_set:
  assumes "list_comp f xs = Inr ys" and "y \<in> set ys"
  shows "\<exists>x\<in>set xs. f x = Inr y"
proof -
  from assms(1) have l: "list_all2 (\<lambda>x y. f x = Inr y) xs ys"
    by (simp add: list_comp_eq_Inr)
  from assms(2) obtain i where "i < length ys" "ys ! i = y"
    by (auto simp: in_set_conv_nth)
  with l have "f (xs ! i) = Inr y" "i < length xs"
    by (auto simp: list_all2_conv_all_nth)
  then show ?thesis
    using nth_mem by blast
qed

lemma list_comp_fixed:
  assumes "\<forall>x\<in>set xs. f x = Inr x"
  shows "list_comp f xs = Inr xs"
  using list_comp_map[of xs f "\<lambda>x. x"] assms by simp

lemma stable_cell_np_int32:
  assumes "stable_cell np c"
  shows "np_int32 np c = Inr c"
proof (cases c)
  case (Num y)
  with assms show ?thesis
    by (simp add: cast_fixed_def)
next
  case (Arr a)
  with assms have dt: "dtype_of a = SInt 32" and nz: "\<not> (\<exists>x. shape a = [] \<and> elems a = [x])"
    and fx: "list_all (cast_fixed np) (elems a)"
    by simp_all
  from fx have same: "map (cast32 np) (elems a) = elems a"
    by (simp add: list_all_iff cast_fixed_def map_idI)
  have whole: "NDArray (SInt 32) (shape a) (elems a) = a"
    unfolding dt[symmetric] by simp
  show ?thesis
    unfolding Arr np_int32_Arr_keep[OF nz] same whole by (rule refl)
next
  case (Str s)
  with assms show ?thesis by simp
next
  case (Seq xs)
  with assms show ?thesis by simp
qed

lemma stable_cell_np_int32_element:
  assumes "stable_cell np c" and "is_num c"
  shows "np_int32_element np c = Inr c"
  using assms by (cases c) (simp_all add: cast_fixed_def)

lemma np_int32_stable:
  assumes "np_cast_stable np" and "np_int32 np c = Inr y"
  shows "stable_cell np y"
proof (cases c)
  case (Num x)
  with assms show ?thesis
    by (auto simp: np_cast_stable_def and_then_eq_Inr)
next
  case (Str s)
  with assms show ?thesis
    by (auto simp: np_cast_stable_def and_then_eq_Inr)
next
  case (Seq xs)
  with assms(2) obtain ys where ys: "list_comp (cast32_scalar np) xs = Inr ys"
    and y: "y = Arr (NDArray (SInt 32) [length xs] ys)"
    by (auto simp: and_then_eq_Inr)
  have "cast_fixed np z" if "z \<in> set ys" for z
  proof -
    from list_comp_set[OF ys that] obtain x where "cast32_scalar np x = Inr z" by blast
    with assms(1) show ?thesis
      by (auto simp: np_cast_stable_def)
  qed
  with y show ?thesis
    by (simp add: list_all_iff)
next
  case (Arr a)
  show ?thesis
  proof (cases "\<exists>x. shape a = [] \<and> elems a = [x]")
    case True
    then obtain x where "shape a = []" "elems a = [x]" by blast
    with Arr assms show ?thesis
      by (auto simp: np_cast_stable_def)
  next
    case False
    from np_int32_Arr_keep[OF False, of np] Arr assms(2)
    have y: "y = Arr (NDArray (SInt 32) (shape a) (map (cast32 np) (elems a)))"
      by simp
    have "list_all (cast_fixed np) (map (cast32 np) (elems a))"
      using assms(1) by (simp add: np_cast_stable_def list_all_iff)
    moreover have "\<not> (\<exists>x. shape a = [] \<and> map (cast32 np) (elems a) = [x])"
      using False by (cases "elems a") auto
    ultimately show ?thesis
      using y by simp
  qed
qed

lemma np_int32_element_stable:
  assumes "np_cast_stable np" and "np_int32_element np c = Inr y"
  shows "stable_cell np y"
  using assms by (cases c) (auto simp: np_cast_stable_def)

lemma convert_column_changed_stable:
  assumes "np_cast_stable np" and "convert_column np col = Inr col'"
  shows "col' = col \<or> (\<exists>ys. col' = (infer_object ys, ys) \<and> (\<forall>c\<in>set ys. stable_cell np c))"
proof -
  from convert_column_cases[OF assms(2)] consider "col' = col"
    | ys where "col' = (infer_object ys, ys)" "list_comp (np_int32 np) (snd col) = Inr ys"
    | ys where "col' = (infer_object ys, ys)" "np_int32_series np col = Inr ys" "\<not> fst col"
    by blast
  then show ?thesis
  proof cases
    case 1
    then show ?thesis by simp
  next
    case 2
    have "stable_cell np c" if "c \<in> set ys" for c
    proof -
      from list_comp_set[OF 2(2) that] obtain x where "np_int32 np x = Inr c" ..
      then show ?thesis
        by (rule np_int32_stable[OF assms(1)])
    qed
    with 2(1) show ?thesis by blast
  next
    case 3
    then have lc: "list_comp (np_int32_element np) (snd col) = Inr ys"
      by (cases col) (simp add: np_int32_series_def)
    have "stable_cell np c" if "c \<in> set ys" for c
    proof -
      from list_comp_set[OF lc that] obtain x where "np_int32_element np x = Inr c" ..
      then show ?thesis
        by (rule np_int32_element_stable[OF assms(1)])
    qed
    with 3(1) show ?thesis by blast
  qed
qed

lemma stable_column:
  assumes "\<forall>c\<in>set ys. stable_cell np c"
  shows "new_column np (infer_object ys, ys) = (infer_object ys, ys)"
proof (cases "convert_column np (infer_object ys, ys)")
  case (Inl e)
  then show ?thesis by (simp add: new_column_def)
next
  case (Inr col')
  have cast: "list_comp (np_int32 np) ys = Inr ys"
    by (rule list_comp_fixed) (use assms stable_cell_np_int32 in blast)
  from convert_column_cases[OF Inr] consider "col' = (infer_object ys, ys)"
    | zs where "col' = (infer_object zs, zs)" "list_comp (np_int32 np) ys = Inr zs"
    | zs where "col' = (infer_object zs, zs)" "np_int32_series np (infer_object ys, ys) = Inr zs"
        "\<not> infer_object ys"
    by auto
  then have "col' = (infer_object ys, ys)"
  proof cases
    case 1
    then show ?thesis .
  next
    case 2
    with cast show ?thesis by simp
  next
    case 3
    from 3(3) have num: "\<forall>c\<in>set ys. is_num c"
      by (simp add: infer_object_def list_all_iff)
    have "list_comp (np_int32_element np) ys = Inr ys"
      by (rule list_comp_fixed) (use assms num stable_cell_np_int32_element in blast)
    with 3 show ?thesis
      by (simp add: np_int32_series_def)
  qed
  with Inr show ?thesis
    by (simp add: new_column_def)
qed

lemma new_column_idem:
  assumes "np_cast_stable np"
  shows "new_column np (new_column np col) = new_column np col"
proof (cases "convert_column np col")
  case (Inl e)
  then have "new_column np col = col" by (simp add: new_column_def)
  then show ?thesis by simp
next
  case (Inr col')
  then have n: "new_column np col = col'" by (simp add: new_column_def)
  from convert_column_changed_stable[OF assms Inr] show ?thesis
  proof
    assume "col' = col"
    with n show ?thesis by simp
  next
    assume "\<exists>ys. col' = (infer_object ys, ys) \<and> (\<forall>c\<in>set ys. stable_cell np c)"
    then obtain ys where "col' = (infer_object ys, ys)" "\<forall>c\<in>set ys. stable_cell np c"
      by blast
    with stable_column[of ys np] n show ?thesis by simp
  qed
qed

text \<open>
  Claim C8. Provided numpy's cast gives back a value that a second cast leaves as it is
  (a 32-bit integer cast to 32 bits is itself), running the transform on its own result
  returns that result: a column that was cast is either cast to itself again or left
  alone, and a column that was left alone is treated as before.
\<close>

theorem clean_integer_fields_idempotent:
  assumes "valid_table df" and "np_cast_stable np"
  shows "fst (clean_integer_fields np (fst (clean_integer_fields np df))) =
     fst (clean_integer_fields np df)"
proof -
  have dist: "distinct (map fst (columns df))"
    using assms(1) by (rule valid_table_distinct)
  have lens: "\<forall>(n, col) \<in> set (columns df). length (snd col) = length (index df)"
    using assms(1) by (rule valid_table_lens)
  let ?df1 = "df\<lparr>columns := map (\<lambda>(n, col). (n, new_column np col)) (columns df)\<rparr>"
  have one: "fst (clean_integer_fields np df) = ?df1"
    by (simp add: clean_integer_fields_result[OF dist lens])
  have names1: "map fst (columns ?df1) = map fst (columns df)"
    using map_fst_map_columns[of "\<lambda>n. new_column np" "columns df"] by simp
  have dist1: "distinct (map fst (columns ?df1))"
    unfolding names1 by (rule dist)
  have lens1: "\<forall>(n, col) \<in> set (columns ?df1). length (snd col) = length (index ?df1)"
    using lens by (auto simp: new_column_length)
  have "map (\<lambda>(n, col). (n, new_column np col)) (map (\<lambda>(n, col). (n, new_column np col)) (columns df)) =
      map (\<lambda>(n, col). (n, new_column np col)) (columns df)"
    by (simp add: case_prod_unfold new_column_idem[OF assms(2)])
  then have "fst (clean_integer_fields np ?df1) = ?df1"
    by (simp add: clean_integer_fields_result[OF dist1 lens1])
  with one show ?thesis
    by simp
qed

section \<open>The reference instance is stable under a second cast\<close>

lemma int32_wrap_in_range: "in_int32 t \<Longrightarrow> int32_wrap t = t"
  by (simp add: int32_wrap_def in_int32_def)

lemma int32_wrap_range: "in_int32 (int32_wrap i)"
proof -
  have "0 \<le> (i + 2147483648) mod 4294967296" "(i + 2147483648) mod 4294967296 < 4294967296"
    by simp_all
  then show ?thesis
    unfolding int32_wrap_def in_int32_def by linarith
qed

lemma cast32_ref_range: "\<exists>t. cast32_ref x = IntV t \<and> in_int32 t"
proof (cases x)
  case (IntV i)
  then show ?thesis by (simp add: int32_wrap_range)
next
  case (FloatV r)
  then show ?thesis by (simp add: Let_def in_int32_def)
qed (simp_all add: in_int32_def)

lemma cast32_scalar_ref_range: "cast32_scalar_ref x = Inr y \<Longrightarrow> \<exists>t. y = IntV t \<and> in_int32 t"
  by (cases x) (auto simp: Let_def split: if_splits)

lemma cast_fixed_ref: "in_int32 t \<Longrightarrow> cast_fixed np_ref (IntV t)"
  by (simp add: cast_fixed_def np_ref_def int32_wrap_in_range)

lemma digit_value_nonneg: "digit_value c = Some d \<Longrightarrow> 0 \<le> d"
  by (auto simp: digit_value_def split: if_splits)

lemma decimal_nonneg: "decimal acc s = Some v \<Longrightarrow> 0 \<le> acc \<Longrightarrow> 0 \<le> v"
proof (induction s arbitrary: acc)
  case Nil
  then show ?case by simp
next
  case (Cons c s)
  then show ?case
    by (auto split: option.splits dest!: digit_value_nonneg)
qed

lemma np_ref_stable: "np_cast_stable np_ref"
proof -
  have a: "cast_fixed np_ref (cast32 np_ref x)" for x
    using cast32_ref_range[of x] cast_fixed_ref by (auto simp: np_ref_def)
  have b: "cast_fixed np_ref y" if "cast32_scalar np_ref x = Inr y" for x y
    using cast32_scalar_ref_range[of x y] that cast_fixed_ref by (auto simp: np_ref_def)
  have c: "cast_fixed np_ref y" if "int32_of_str np_ref s = Inr y" for s y
  proof -
    from that obtain v where v: "decimal 0 s = Some v" "v < 2147483648" "y = IntV v"
      by (auto simp: np_ref_def int32_of_str_ref_def split: if_splits option.splits)
    from decimal_nonneg[OF v(1)] have "0 \<le> v" by simp
    with v have "in_int32 v" by (simp add: in_int32_def)
    with v(3) show ?thesis
      by (simp add: cast_fixed_ref)
  qed
  from a b c show ?thesis
    unfolding np_cast_stable_def by blast
qed

lemma valid_ex_floats: "valid_table ex_floats"
  by (simp add: ex_floats_def valid_table_def wf_ndarray_def)

lemma cast32_ref_examples [simp]:
  "cast32_ref (FloatV 3) = IntV 3" "cast32_ref (FloatV 7) = IntV 7"
  "cast32_ref (FloatV (5 / 2)) = IntV 2" "cast32_ref (FloatV (1 / 2)) = IntV 0"
  by (simp_all add: floor_rat_numeral_div floor_rat_one_div)

lemma isclose_ref_examples [simp]:
  "isclose_ref (IntV 3) (FloatV 3)" "isclose_ref (IntV 7) (FloatV 7)"
  "\<not> isclose_ref (IntV 2) (FloatV (5 / 2))" "\<not> isclose_ref (IntV 0) (FloatV (1 / 2))"
  by (simp_all add: isclose_ref_def)

lemma clean_ex_floats: "clean_integer_fields np_ref ex_floats = (ex_floats_cast, [])"
  by (simp add: ex_floats_def ex_floats_cast_def clean_integer_fields_def
      try_field_def getitem_def setitem_def first_value_def np_ref_def np_allclose_def
      np_int32_series_def np_allclose_series_def infer_object_def isclose_ref_def startswith_def
      lower_def floor_rat_numeral_div floor_rat_one_div)

theorem clean_integer_fields_idempotent_witness:
  "valid_table ex_floats \<and> np_cast_stable np_ref \<and>
   fst (clean_integer_fields np_ref ex_floats) = ex_floats_cast \<and>
   fst (clean_integer_fields np_ref ex_floats_cast) = ex_floats_cast"
  using clean_integer_fields_idempotent[OF valid_ex_floats np_ref_stable]
  by (simp add: valid_ex_floats np_ref_stable clean_ex_floats)


section \<open>Shape preservation\<close>

lemma set_update_cases:
  "(n, col) \<in> set (AList.update k v al) \<Longrightarrow> (n, col) = (k, v) \<or> (n, col) \<in> set al"
  by (induction al) (auto split: if_splits)

lemma getitem_mem: "getitem d c = Inr col \<Longrightarrow> c \<in> fst ` set (columns d)"
  by (auto simp: getitem_def split: option.splits dest: map_of_SomeD intro: rev_image_eqI)

lemma setitem_same:
  assumes "setitem d c vs = Inr d'" and "c \<in> fst ` set (columns d)"
    and "same_rows_and_columns df d"
  shows "same_rows_and_columns df d'"
proof -
  from assms(1) have d': "d' = d\<lparr>columns := AList.update c (infer_object vs, vs) (columns d)\<rparr>"
    and len: "length vs = length (index d)"
    by (auto simp: setitem_def split: if_splits)
  have "map fst (columns d') = map fst (columns d)"
    using assms(2) by (simp add: d' update_keys)
  moreover have "length cs = length (index df)" if "(n, obj, cs) \<in> set (columns d')" for n obj cs
    using set_update_cases[of n "(obj, cs)" c "(infer_object vs, vs)" "columns d"] that len assms(3)
    by (auto simp: d' same_rows_and_columns_def)
  ultimately show ?thesis
    using assms(3) by (auto simp: same_rows_and_columns_def d')
qed

lemma backshift_col_same:
  assumes "backshift_col d c = Inr d'" and "same_rows_and_columns df d"
  shows "same_rows_and_columns df d'"
proof -
  from assms(1) obtain col vs where "setitem d c vs = Inr d'" "getitem d c = Inr col"
    by (auto simp: backshift_col_def and_then_eq_Inr)
  then show ?thesis
    by (rule setitem_same[OF _ getitem_mem assms(2)])
qed

lemma clean_0d_array_col_same:
  assumes "clean_0d_array_col d c = Inr d'" and "same_rows_and_columns df d"
  shows "same_rows_and_columns df d'"
proof -
  from assms(1) obtain col vs where "setitem d c vs = Inr d'" "getitem d c = Inr col"
    by (auto simp: clean_0d_array_col_def and_then_eq_Inr)
  then show ?thesis
    by (rule setitem_same[OF _ getitem_mem assms(2)])
qed

lemma same_rows_and_columns_refl:
  "valid_table df \<Longrightarrow> same_rows_and_columns df df"
  by (auto simp: same_rows_and_columns_def valid_table_def)

lemma same_rows_and_columns_map:
  assumes "valid_table df" and "\<And>n col. length (snd (f n col)) = length (snd col)"
  shows "same_rows_and_columns df (df\<lparr>columns := map (\<lambda>(n, col). (n, f n col)) (columns df)\<rparr>)"
proof -
  let ?d = "df\<lparr>columns := map (\<lambda>(n, col). (n, f n col)) (columns df)\<rparr>"
  have names: "map fst (columns ?d) = map fst (columns df)"
    using map_fst_map_columns[of f "columns df"] by simp
  have lens: "\<forall>(n, obj, cs)\<in>set (columns ?d). length cs = length (index df)"
  proof
    fix p assume "p \<in> set (columns ?d)"
    then obtain n col where mem: "(n, col) \<in> set (columns df)" and p: "p = (n, f n col)"
      by auto
    from mem valid_table_lens[OF assms(1)] have "length (snd col) = length (index df)"
      by auto
    with assms(2)[of n col] have "length (snd (f n col)) = length (index df)"
      by simp
    with p show "case p of (n, obj, cs) \<Rightarrow> length cs = length (index df)"
      by (cases "f n col") simp
  qed
  show ?thesis
    unfolding same_rows_and_columns_def
  proof (intro conjI)
    show "index ?d = index df" by simp
    show "map fst (columns ?d) = map fst (columns df)" by (rule names)
    show "\<forall>(n, obj, cs)\<in>set (columns ?d). length cs = length (index df)" by (rule lens)
  qed
qed

lemma collapse_column_length: "length (snd (collapse_column col)) = length (snd col)"
  by (simp add: collapse_column_def)

text \<open>
  Claim C9. For a valid table, a table returned by any of the four transforms has the row
  labels of the input in the same order (so the same row count), the same column names in
  the same order, and one cell per row in every column. The index rebasing and the 2-D
  repair may raise instead of returning (claims C1 and C2 say when they return); the 0-D
  collapse and the integer down-casting always return.
\<close>

theorem transforms_preserve_shape:
  assumes "valid_table df"
  shows "(\<forall>df'. backshift_idx_fields df = Inr df' \<longrightarrow> same_rows_and_columns df df') \<and>
     (\<forall>df'. clean_0d_array_fields df = Inr df' \<longrightarrow> same_rows_and_columns df df') \<and>
     (\<exists>df'. clean_0d_spike_fields df = Inr df' \<and> same_rows_and_columns df df') \<and>
     same_rows_and_columns df (fst (clean_integer_fields np df))"
proof -
  have refl: "same_rows_and_columns df df"
    by (rule same_rows_and_columns_refl[OF assms])
  have a: "same_rows_and_columns df df'" if "backshift_idx_fields df = Inr df'" for df'
    using that unfolding backshift_idx_fields_def
    by (rule for_each_names[where P = "same_rows_and_columns df"])
       (rule backshift_col_same, assumption+, rule refl)
  have b: "same_rows_and_columns df df'" if "clean_0d_array_fields df = Inr df'" for df'
    using that unfolding clean_0d_array_fields_def
    by (rule for_each_names[where P = "same_rows_and_columns df"])
       (rule clean_0d_array_col_same, assumption+, rule refl)
  have c: "\<exists>df'. clean_0d_spike_fields df = Inr df' \<and> same_rows_and_columns df df'"
    unfolding clean_0d_spike_fields_result[OF assms]
    using same_rows_and_columns_map[OF assms, of "\<lambda>n. collapse_column"]
    by (simp add: collapse_column_length)
  have dist: "distinct (map fst (columns df))"
    using assms(1) by (rule valid_table_distinct)
  have lens: "\<forall>(n, col) \<in> set (columns df). length (snd col) = length (index df)"
    using assms(1) by (rule valid_table_lens)
  have d: "same_rows_and_columns df (fst (clean_integer_fields np df))"
    using same_rows_and_columns_map[OF assms, of "\<lambda>n. new_column np"]
    by (simp add: clean_integer_fields_result[OF dist lens] new_column_length)
  from a b c d show ?thesis
    by blast
qed

lemma valid_ex_idx: "valid_table ex_idx"
  by (simp add: ex_idx_def valid_table_def wf_ndarray_def)

lemma valid_ex_spikes: "valid_table ex_spikes"
  by (simp add: ex_spikes_def valid_table_def wf_ndarray_def)

lemma ex_idx_numeric:
  "\<forall>(n, obj, cs) \<in> set (columns ex_idx). startswith n ''idx'' \<longrightarrow> (\<forall>c\<in>set cs. is_num c \<or> is_ndarray c)"
  by (simp add: ex_idx_def startswith_def)

lemma backshift_ex_idx_returns: "\<exists>df'. backshift_idx_fields ex_idx = Inr df'"
  using backshift_idx_fields_result[OF valid_ex_idx ex_idx_numeric] by blast

lemma clean_0d_array_ex_spikes_returns: "\<exists>df'. clean_0d_array_fields ex_spikes = Inr df'"
proof -
  have "\<forall>(n, obj, cs) \<in> set (columns ex_spikes). endswith n ''_spikes'' \<longrightarrow> (\<forall>c\<in>set cs. is_ndarray c)"
    by (simp add: ex_spikes_def endswith_def)
  from clean_0d_array_fields_result[OF valid_ex_spikes this] show ?thesis
    by blast
qed

theorem transforms_preserve_shape_witness:
  "valid_table ex_idx \<and> valid_table ex_spikes \<and>
   (\<exists>df'. backshift_idx_fields ex_idx = Inr df' \<and> same_rows_and_columns ex_idx df') \<and>
   (\<exists>df'. clean_0d_array_fields ex_spikes = Inr df' \<and> same_rows_and_columns ex_spikes df') \<and>
   (\<exists>df'. clean_0d_spike_fields ex_spikes = Inr df' \<and> same_rows_and_columns ex_spikes df') \<and>
   same_rows_and_columns ex_spikes (fst (clean_integer_fields np_ref ex_spikes))"
  using transforms_preserve_shape[OF valid_ex_idx, of np_ref]
    transforms_preserve_shape[OF valid_ex_spikes, of np_ref]
    backshift_ex_idx_returns clean_0d_array_ex_spikes_returns valid_ex_idx valid_ex_spikes
  by blast

section \<open>Non-mutation of the caller's table\<close>

lemma copy_td_in_place:
  assumes "r < length s"
  shows "copy_td (in_place body) s r =
     (case body (s ! r) of
        Inl (e, t) \<Rightarrow> (s @ [t], Inl e)
      | Inr t \<Rightarrow> (s @ [t], Inr (length s)))"
  using assms
  by (auto simp: copy_td_def df_copy_def in_place_def split: sum.splits)

lemma in_place_other:
  "r \<noteq> r' \<Longrightarrow> r < length s \<Longrightarrow> fst (in_place body s r') ! r = s ! r"
  by (auto simp: in_place_def split: sum.splits)

lemma copy_td_leaves_caller_table:
  assumes "r < length s"
  shows "leaves_caller_table (copy_td (in_place body)) s r"
proof (cases "body (s ! r)")
  case (Inl p)
  obtain e t where "p = (e, t)" by (cases p)
  with Inl assms show ?thesis
    by (simp add: leaves_caller_table_def copy_td_in_place nth_append)
next
  case (Inr t)
  have "fst (in_place b (s @ [t]) (length s)) ! r = s ! r" for b
    using in_place_other[of r "length s" "s @ [t]" b] assms by (simp add: nth_append)
  with Inr assms show ?thesis
    by (simp add: leaves_caller_table_def copy_td_in_place nth_append)
qed

text \<open>
  Claim C6. Called on a reference \<open>r\<close> to a table in the store, each of the four
  decorated transforms leaves every object that was in the store as it was, the caller's
  table at \<open>r\<close> among them; when it returns, the reference it returns is a new address,
  different from \<open>r\<close>, and nothing assigned in place through that reference changes the
  table at \<open>r\<close>.
\<close>

theorem transforms_leave_input_unchanged:
  assumes "r < length s"
  shows "leaves_caller_table backshift_idx_fields_call s r \<and>
     leaves_caller_table clean_0d_array_fields_call s r \<and>
     leaves_caller_table clean_0d_spike_fields_call s r \<and>
     leaves_caller_table (clean_integer_fields_call np) s r"
  unfolding backshift_idx_fields_call_def clean_0d_array_fields_call_def
    clean_0d_spike_fields_call_def clean_integer_fields_call_def
  using copy_td_leaves_caller_table[OF assms] by simp

text \<open>
  Without the decorator the transform does change the caller's table: the copy is what
  keeps it.
\<close>

lemma in_place_changes_caller_table:
  "fst (in_place backshift_idx_fields [ex_idx] 0) ! 0 \<noteq> ex_idx"
proof -
  let ?t = "ex_idx\<lparr>columns := map (\<lambda>(n, col). if startswith n ''idx''
      then (n, backshift_column col) else (n, col)) (columns ex_idx)\<rparr>"
  have r: "backshift_idx_fields ex_idx = Inr ?t"
    by (rule backshift_idx_fields_result[OF valid_ex_idx ex_idx_numeric])
  have eq: "fst (in_place backshift_idx_fields [ex_idx] 0) ! 0 = ?t"
    by (simp add: in_place_def r)
  have "columns ?t \<noteq> columns ex_idx"
    by (simp add: ex_idx_def startswith_def backshift_column_def)
  then have "?t \<noteq> ex_idx"
    by metis
  then show ?thesis
    unfolding eq .
qed

theorem transforms_leave_input_unchanged_witness:
  "(0::nat) < length [ex_idx] \<and>
   leaves_caller_table backshift_idx_fields_call [ex_idx] 0 \<and>
   fst (backshift_idx_fields_call [ex_idx] 0) ! 0 = ex_idx \<and>
   snd (backshift_idx_fields_call [ex_idx] 0) = Inr 1 \<and>
   fst (backshift_idx_fields_call [ex_idx] 0) ! 1 \<noteq> ex_idx"
proof -
  have len: "(0::nat) < length [ex_idx]"
    by simp
  from transforms_leave_input_unchanged[OF len, of np_ref]
  have l: "leaves_caller_table backshift_idx_fields_call [ex_idx] 0"
    by simp
  obtain df' where df': "backshift_idx_fields ex_idx = Inr df'"
    using backshift_ex_idx_returns by blast
  then have call: "backshift_idx_fields_call [ex_idx] 0 = ([ex_idx, df'], Inr 1)"
    by (simp add: backshift_idx_fields_call_def copy_td_in_place)
  have "fst (in_place backshift_idx_fields [ex_idx] 0) ! 0 = df'"
    using df' by (simp add: in_place_def)
  with in_place_changes_caller_table have "df' \<noteq> ex_idx"
    by simp
  with len l call show ?thesis
    by simp
qed

section \<open>Further examples\<close>



text \<open>
  Outside the preconditions of claims C1 and C2 the two transforms raise: a string in an
  \<^verbatim>\<open>idx\<close> column, a scalar in a \<^verbatim>\<open>_spikes\<close> column.
\<close>

lemma backshift_idx_fields_string_raises:
  "backshift_idx_fields \<lparr>index = [0], columns = [(''idx_go'', True, [Str ''late''])]\<rparr> =
     Inl (TypeError, \<lparr>index = [0], columns = [(''idx_go'', True, [Str ''late''])]\<rparr>)"
  by (simp add: backshift_idx_fields_def idx_fields_def startswith_def backshift_col_def getitem_def)

lemma clean_0d_array_fields_scalar_raises:
  "clean_0d_array_fields \<lparr>index = [0], columns = [(''m1_spikes'', False, [Num (FloatV 1)])]\<rparr> =
     Inl (AttributeError, \<lparr>index = [0], columns = [(''m1_spikes'', False, [Num (FloatV 1)])]\<rparr>)"
  by (simp add: clean_0d_array_fields_def spike_fields_def endswith_def clean_0d_array_col_def
      getitem_def ensure_2d_def)

end
